theory Spec2Isabelle
  imports Main "HOL-Library.Word"
begin

section \<open>Marching squares on a shared image: the data model\<close>

text \<open>
  The program is \<^verbatim>\<open>tema1_par.c\<close>. Its compile-time constants are kept as constants.
  Image dimensions, loop counters, thread ids and the worker count are C \<^verbatim>\<open>int\<close>s that
  are never negative on the paths modelled here; they are natural numbers. Arithmetic is
  unbounded: the model covers images whose pixel count fits a C \<^verbatim>\<open>int\<close>.
\<close>

definition CONTOUR_CONFIG_COUNT :: nat where
  "CONTOUR_CONFIG_COUNT = 16"

definition STEP :: nat where
  "STEP = 8"

text \<open>\<^verbatim>\<open>SIGMA\<close>; the plain name is taken by the syntax of dependent sums.\<close>

definition SIGMA' :: nat where
  "SIGMA' = 200"

definition RESCALE_X :: nat where
  "RESCALE_X = 2048"

definition RESCALE_Y :: nat where
  "RESCALE_Y = 2048"

type_synonym uchar = "8 word"

text \<open>
  \<^verbatim>\<open>ppm_pixel\<close> and \<^verbatim>\<open>ppm_image\<close> are declared in \<^verbatim>\<open>helpers.h\<close>; the fields are the ones
  the source uses. The pixel buffer \<^verbatim>\<open>data\<close> is the list of its cells.
\<close>

record ppm_pixel =
  red :: uchar
  green :: uchar
  blue :: uchar

record ppm_image =
  x :: nat
  y :: nat
  data :: "ppm_pixel list"

text \<open>
  What stops a run: undefined behaviour of the C program (an access outside a buffer, a
  division by zero, a null pointer followed) and \<^verbatim>\<open>exit\<close> with a status and the text
  written to \<^verbatim>\<open>stderr\<close>.
\<close>

datatype failure = Out_Of_Bounds | Div_By_Zero | Null_Deref | Exit nat string

definition and_then :: "failure + 'a \<Rightarrow> ('a \<Rightarrow> failure + 'b) \<Rightarrow> failure + 'b" where
  "and_then m f = (case m of Inl e \<Rightarrow> Inl e | Inr v \<Rightarrow> f v)"

text \<open>
  A loop over a list of values that stops at the first failure, and the counted loop
  \<^verbatim>\<open>for (int i = a; i < b; i++) body\<close> over a state.
\<close>

fun iterate :: "'a list \<Rightarrow> ('a \<Rightarrow> 's \<Rightarrow> failure + 's) \<Rightarrow> 's \<Rightarrow> failure + 's" where
  "iterate [] body s = Inr s"
| "iterate (i # rest) body s =
     (case body i s of Inl e \<Rightarrow> Inl e | Inr s' \<Rightarrow> iterate rest body s')"

definition for_range :: "nat \<Rightarrow> nat \<Rightarrow> (nat \<Rightarrow> 's \<Rightarrow> failure + 's) \<Rightarrow> 's \<Rightarrow> failure + 's" where
  "for_range a b body s = iterate [a..<b] body s"

subsection \<open>Buffer accesses\<close>

definition pixel_at :: "ppm_image \<Rightarrow> nat \<Rightarrow> failure + ppm_pixel" where
  "pixel_at img k =
     (if k < length (data img) then Inr (data img ! k) else Inl Out_Of_Bounds)"

text \<open>
  The three channel assignments of \<^verbatim>\<open>update_image\<close> to \<^verbatim>\<open>image->data[k]\<close>.
\<close>

definition pixel_copy :: "ppm_image \<Rightarrow> nat \<Rightarrow> ppm_pixel \<Rightarrow> failure + ppm_image" where
  "pixel_copy img k c =
     (if k < length (data img)
      then Inr (img\<lparr>data := (data img)[k := (data img ! k)\<lparr>red := red c, green := green c, blue := blue c\<rparr>]\<rparr>)
      else Inl Out_Of_Bounds)"

text \<open>
  The grid is an array of separately allocated rows of \<^verbatim>\<open>unsigned char\<close>.
\<close>

type_synonym grid = "uchar list list"

definition grid_get :: "grid \<Rightarrow> nat \<Rightarrow> nat \<Rightarrow> failure + uchar" where
  "grid_get g i j =
     (if i < length g \<and> j < length (g ! i) then Inr (g ! i ! j) else Inl Out_Of_Bounds)"

definition grid_set :: "grid \<Rightarrow> nat \<Rightarrow> nat \<Rightarrow> uchar \<Rightarrow> failure + grid" where
  "grid_set g i j v =
     (if i < length g \<and> j < length (g ! i) then Inr (g[i := (g ! i)[j := v]])
      else Inl Out_Of_Bounds)"

section \<open>The worker partition\<close>

text \<open>
  Every stage computes \<^verbatim>\<open>start = thread_id * (e / N)\<close> and
  \<^verbatim>\<open>end = (thread_id + 1) * (e / N)\<close> for its extent \<^verbatim>\<open>e\<close>.
\<close>

definition part_start :: "nat \<Rightarrow> nat \<Rightarrow> nat \<Rightarrow> nat" where
  "part_start thread_id e N = thread_id * (e div N)"

definition part_end :: "nat \<Rightarrow> nat \<Rightarrow> nat \<Rightarrow> nat" where
  "part_end thread_id e N = (thread_id + 1) * (e div N)"

section \<open>Step 1: sampling the grid\<close>

text \<open>
  \<^verbatim>\<open>unsigned char curr_color = (red + green + blue) / 3\<close>: the channels are promoted to
  \<^verbatim>\<open>int\<close>, the quotient is converted back to \<^verbatim>\<open>unsigned char\<close>.
\<close>

definition curr_color :: "ppm_pixel \<Rightarrow> uchar" where
  "curr_color px = of_nat ((unat (red px) + unat (green px) + unat (blue px)) div 3)"

definition threshold :: "ppm_pixel \<Rightarrow> uchar" where
  "threshold px = (if unat (curr_color px) > SIGMA' then 0 else 1)"

text \<open>The first loop nest of \<^verbatim>\<open>sample_grid\<close> (lines 90 to 107).\<close>

definition sample_interior :: "ppm_image \<Rightarrow> nat \<Rightarrow> nat \<Rightarrow> nat \<Rightarrow> grid \<Rightarrow> failure + grid" where
  "sample_interior img q start stop g =
     for_range start stop (\<lambda>i.
       for_range 0 q (\<lambda>j g.
         and_then (pixel_at img (i * STEP * y img + j * STEP))
           (\<lambda>curr_pixel. grid_set g i j (threshold curr_pixel)))) g"

text \<open>
  The source subtracts 1 from \<^verbatim>\<open>image->x\<close> in the indices of the two boundary loops;
  these indices are computed in the integers, and a negative one is outside the buffer.
\<close>

definition pixel_at_int :: "ppm_image \<Rightarrow> int \<Rightarrow> failure + ppm_pixel" where
  "pixel_at_int img k = (if k < 0 then Inl Out_Of_Bounds else pixel_at img (nat k))"

text \<open>
  The loop over the last grid column (lines 116 to 130), with the index
  \<^verbatim>\<open>i * STEP * image->y + image->x - 1\<close>.
\<close>

definition sample_last_column :: "ppm_image \<Rightarrow> nat \<Rightarrow> nat \<Rightarrow> nat \<Rightarrow> grid \<Rightarrow> failure + grid" where
  "sample_last_column img q start1 end1 g =
     for_range start1 end1 (\<lambda>i g.
       and_then (pixel_at_int img (int (i * STEP * y img) + int (x img) - 1))
         (\<lambda>curr_pixel. grid_set g i q (threshold curr_pixel))) g"

text \<open>
  The loop over the last grid row (lines 135 to 149), with the index
  \<^verbatim>\<open>(image->x - 1) * image->y + j * STEP\<close>.
\<close>

definition sample_last_row :: "ppm_image \<Rightarrow> nat \<Rightarrow> nat \<Rightarrow> nat \<Rightarrow> grid \<Rightarrow> failure + grid" where
  "sample_last_row img p start2 end2 g =
     for_range start2 end2 (\<lambda>j g.
       and_then (pixel_at_int img ((int (x img) - 1) * int (y img) + int (j * STEP)))
         (\<lambda>curr_pixel. grid_set g p j (threshold curr_pixel))) g"

definition sample_grid :: "ppm_image \<Rightarrow> grid \<Rightarrow> nat \<Rightarrow> nat \<Rightarrow> failure + grid" where
  "sample_grid img g thread_id N =
     (if N = 0 then Inl Div_By_Zero
      else
        let p = x img div STEP;
            q = y img div STEP
        in and_then (sample_interior img q (part_start thread_id p N) (part_end thread_id p N) g)
             (\<lambda>g1. and_then (grid_set g1 p q 0)
               (\<lambda>g2. and_then (sample_last_column img q (part_start thread_id p N) (part_end thread_id p N) g2)
                 (\<lambda>g3. sample_last_row img p (part_start thread_id q N) (part_end thread_id q N) g3))))"

section \<open>Step 2: marching\<close>

text \<open>
  \<^verbatim>\<open>update_image\<close>: the tile index is \<^verbatim>\<open>contour->x * i + j\<close>, the image index
  \<^verbatim>\<open>(x + i) * image->y + y + j\<close>. The offsets are called \<open>x0\<close> and \<open>y0\<close> here.
\<close>

definition update_image :: "ppm_image \<Rightarrow> ppm_image \<Rightarrow> nat \<Rightarrow> nat \<Rightarrow> failure + ppm_image" where
  "update_image img contour x0 y0 =
     for_range 0 (x contour) (\<lambda>i.
       for_range 0 (y contour) (\<lambda>j im.
         and_then (pixel_at contour (x contour * i + j))
           (\<lambda>c. pixel_copy im ((x0 + i) * y im + y0 + j) c))) img"

text \<open>
  \<^verbatim>\<open>unsigned char k = 8 * grid[i][j] + 4 * grid[i][j + 1] + 2 * grid[i + 1][j + 1]
  + 1 * grid[i + 1][j]\<close>: computed in \<^verbatim>\<open>int\<close>, stored in an \<^verbatim>\<open>unsigned char\<close>.
\<close>

definition config_index :: "grid \<Rightarrow> nat \<Rightarrow> nat \<Rightarrow> failure + uchar" where
  "config_index g i j =
     and_then (grid_get g i j) (\<lambda>a.
     and_then (grid_get g i (j + 1)) (\<lambda>b.
     and_then (grid_get g (i + 1) (j + 1)) (\<lambda>c.
     and_then (grid_get g (i + 1) j) (\<lambda>d.
       Inr (of_nat (8 * unat a + 4 * unat b + 2 * unat c + 1 * unat d))))))"

definition contour_at :: "ppm_image list \<Rightarrow> uchar \<Rightarrow> failure + ppm_image" where
  "contour_at contour_map k =
     (if unat k < length contour_map then Inr (contour_map ! unat k) else Inl Out_Of_Bounds)"

definition march :: "ppm_image \<Rightarrow> grid \<Rightarrow> ppm_image list \<Rightarrow> nat \<Rightarrow> nat \<Rightarrow> failure + ppm_image" where
  "march img g contour_map thread_id N =
     (if N = 0 then Inl Div_By_Zero
      else
        let p = x img div STEP;
            q = y img div STEP
        in for_range (part_start thread_id p N) (part_end thread_id p N) (\<lambda>i.
             for_range 0 q (\<lambda>j im.
               and_then (config_index g i j) (\<lambda>k.
               and_then (contour_at contour_map k) (\<lambda>contour.
                 update_image im contour (i * STEP) (j * STEP))))) img)"

section \<open>Step 0: rescaling\<close>

text \<open>
  \<^verbatim>\<open>sample_bicubic\<close> is a function of \<^verbatim>\<open>helpers.c\<close>, which is not part of the sources.
  It is a parameter here: a function of the source image and of its two \<^verbatim>\<open>float\<close>
  arguments \<^verbatim>\<open>u = (float)i / (float)(new_image->x - 1)\<close> and
  \<^verbatim>\<open>v = (float)j / (float)(new_image->y - 1)\<close>, each given by the pair of integers it is
  computed from, that returns the three bytes of \<^verbatim>\<open>sample\<close>.
\<close>

type_synonym bicubic = "ppm_image \<Rightarrow> nat \<times> nat \<Rightarrow> nat \<times> nat \<Rightarrow> ppm_pixel"

text \<open>
  \<^verbatim>\<open>rescale_image\<close>: \<open>img\<close> is \<^verbatim>\<open>imagine->image\<close>, \<open>new_image\<close> is
  \<^verbatim>\<open>imagine->scaled_image\<close>, a different buffer (the caller checks it). The loop
  condition is \<^verbatim>\<open>i < end && i < new_image->x\<close>; inside the loops \<^verbatim>\<open>new_image->x\<close> and
  \<^verbatim>\<open>new_image->y\<close> are positive.
\<close>

definition rescale_image :: "bicubic \<Rightarrow> ppm_image \<Rightarrow> ppm_image \<Rightarrow> nat \<Rightarrow> nat \<Rightarrow> failure + ppm_image" where
  "rescale_image bicubic img new_image thread_id N =
     (if N = 0 then Inl Div_By_Zero
      else
        for_range (part_start thread_id (x new_image) N)
                  (min (part_end thread_id (x new_image) N) (x new_image)) (\<lambda>i.
          for_range 0 (y new_image) (\<lambda>j im.
            let u = (i, x im - 1);
                v = (j, y im - 1);
                sample = bicubic img u v
            in pixel_copy im (i * y im + j) sample)) new_image)"

section \<open>The environment of a run\<close>

text \<open>
  What the program gets from outside: the codec \<^verbatim>\<open>read_ppm\<close> (it may end the process),
  \<^verbatim>\<open>sample_bicubic\<close>, and \<^verbatim>\<open>malloc\<close>. Each allocation statement of the modelled
  functions runs at most once per grid row and run, so the outcome of \<^verbatim>\<open>malloc\<close> is
  given per allocation site: whether it returns a block, and what the cells of a fresh
  block hold before they are written.
\<close>

datatype alloc_site = Contour_Map | Rescale_Struct | Rescale_Data | Grid_Rows | Grid_Row nat

record env =
  read_ppm :: "string \<Rightarrow> failure + ppm_image"
  sample_bicubic :: bicubic
  malloc_ok :: "alloc_site \<Rightarrow> bool"
  fresh_pixel :: "nat \<Rightarrow> ppm_pixel"
  fresh_cell :: "nat \<Rightarrow> nat \<Rightarrow> uchar"

text \<open>\<^verbatim>\<open>fprintf(stderr, "Unable to allocate memory\n"); exit(1);\<close>\<close>

definition out_of_memory :: failure where
  "out_of_memory = Exit 1 (''Unable to allocate memory'' @ [CHR 0x0A])"

text \<open>The digits \<^verbatim>\<open>sprintf\<close> prints for \<^verbatim>\<open>%d\<close> and a value that is not negative.\<close>

fun decimal :: "nat \<Rightarrow> string" where
  "decimal n =
     (if n < 10 then [char_of (48 + n)]
      else decimal (n div 10) @ [char_of (48 + n mod 10)])"

definition init_contour_map :: "env \<Rightarrow> failure + ppm_image list" where
  "init_contour_map env =
     (if \<not> malloc_ok env Contour_Map then Inl out_of_memory
      else for_range 0 CONTOUR_CONFIG_COUNT (\<lambda>i m.
             and_then (read_ppm env (''./contours/'' @ decimal i @ ''.ppm''))
               (\<lambda>tile. Inr (m @ [tile]))) [])"

text \<open>
  \<^verbatim>\<open>allocate_rescale\<close>. The test after the second \<^verbatim>\<open>malloc\<close> is \<^verbatim>\<open>if (!new_image)\<close>, as
  the source has it. A null \<^verbatim>\<open>data\<close> pointer has no cell that may be accessed: it is the
  empty buffer.
\<close>

definition allocate_rescale :: "env \<Rightarrow> failure + ppm_image" where
  "allocate_rescale env =
     (if \<not> malloc_ok env Rescale_Struct then Inl out_of_memory
      else
        let new_image = \<lparr>x = RESCALE_X, y = RESCALE_Y,
              data = (if malloc_ok env Rescale_Data
                      then map (fresh_pixel env) [0..<RESCALE_X * RESCALE_Y] else [])\<rparr>
        in if \<not> malloc_ok env Rescale_Struct then Inl out_of_memory
           else Inr new_image)"

text \<open>\<^verbatim>\<open>allocate_grid\<close>: the row loop is \<^verbatim>\<open>for (int i = 0; i <= p; i++)\<close>.\<close>

definition allocate_grid :: "env \<Rightarrow> ppm_image \<Rightarrow> failure + grid" where
  "allocate_grid env img =
     (let p = x img div STEP;
          q = y img div STEP
      in if \<not> malloc_ok env Grid_Rows then Inl out_of_memory
         else for_range 0 (p + 1) (\<lambda>i g.
                if \<not> malloc_ok env (Grid_Row i) then Inl out_of_memory
                else Inr (g @ [map (fresh_cell env i) [0..<q + 1]])) [])"

section \<open>The workers\<close>

text \<open>
  The images live in a store, addressed by their position, so that two pointers to the
  same image are the same address. The tiles are only read and stay values. The grid is
  one object shared by all workers.
\<close>

record memory =
  images :: "ppm_image list"
  grid_cells :: grid

definition load :: "memory \<Rightarrow> nat \<Rightarrow> failure + ppm_image" where
  "load m a = (if a < length (images m) then Inr (images m ! a) else Inl Null_Deref)"

definition store :: "nat \<Rightarrow> ppm_image \<Rightarrow> memory \<Rightarrow> memory" where
  "store a v m = m\<lparr>images := (images m)[a := v]\<rparr>"

text \<open>
  \<^verbatim>\<open>struct image\<close>, the argument of a worker: the fields \<^verbatim>\<open>thread_id\<close>, \<^verbatim>\<open>image\<close>,
  \<^verbatim>\<open>scaled_image\<close> and \<^verbatim>\<open>N\<close>. Its \<^verbatim>\<open>grid\<close> is the grid of the memory, its
  \<^verbatim>\<open>contour_map\<close> the tile table, its \<^verbatim>\<open>barrier\<close> the phase structure below.
\<close>

record image_arg =
  arg_thread_id :: nat
  arg_image :: nat
  arg_scaled_image :: nat
  arg_N :: nat

text \<open>
  \<^verbatim>\<open>apeleaza\<close> is three phases with a \<^verbatim>\<open>pthread_barrier_wait\<close> after each: no worker
  starts a phase before every worker has finished the one before.
\<close>

definition apeleaza_rescale :: "env \<Rightarrow> image_arg \<Rightarrow> memory \<Rightarrow> failure + memory" where
  "apeleaza_rescale env im m =
     (if arg_image im \<noteq> arg_scaled_image im
      then and_then (load m (arg_image im)) (\<lambda>img.
           and_then (load m (arg_scaled_image im)) (\<lambda>new_image.
           and_then (rescale_image (sample_bicubic env) img new_image (arg_thread_id im) (arg_N im))
             (\<lambda>scaled. Inr (store (arg_scaled_image im) scaled m))))
      else Inr m)"

definition apeleaza_sample :: "image_arg \<Rightarrow> memory \<Rightarrow> failure + memory" where
  "apeleaza_sample im m =
     and_then (load m (arg_scaled_image im)) (\<lambda>scaled.
     and_then (sample_grid scaled (grid_cells m) (arg_thread_id im) (arg_N im))
       (\<lambda>g. Inr (m\<lparr>grid_cells := g\<rparr>)))"

definition apeleaza_march :: "ppm_image list \<Rightarrow> image_arg \<Rightarrow> memory \<Rightarrow> failure + memory" where
  "apeleaza_march contour_map im m =
     and_then (load m (arg_scaled_image im)) (\<lambda>scaled.
     and_then (march scaled (grid_cells m) contour_map (arg_thread_id im) (arg_N im))
       (\<lambda>marched. Inr (store (arg_scaled_image im) marched m)))"

text \<open>
  In a phase the workers write cells of disjoint index ranges (and all of them the same 0
  to the corner of the grid) and read only what no worker writes in that phase; a phase
  is modelled as the workers' steps one after the other, in the order of their creation.
  Taking the steps of a phase in another order gives the same memory (lemmas
  \<open>run_workers_order_fits\<close> and \<open>run_workers_order_rescale\<close>).
\<close>

definition run_workers :: "env \<Rightarrow> ppm_image list \<Rightarrow> image_arg list \<Rightarrow> memory \<Rightarrow> failure + memory" where
  "run_workers env contour_map imagine m =
     and_then (iterate imagine (apeleaza_rescale env) m) (\<lambda>m1.
     and_then (iterate imagine apeleaza_sample m1) (\<lambda>m2.
       iterate imagine (apeleaza_march contour_map) m2))"

section \<open>The program\<close>

text \<open>
  \<^verbatim>\<open>atoi\<close>: white space, an optional sign, then decimal digits up to the first other
  character.
\<close>

definition is_space :: "char \<Rightarrow> bool" where
  "is_space c \<longleftrightarrow> of_char c \<in> {32, 9, 10, 11, 12, 13 :: nat}"

definition is_digit :: "char \<Rightarrow> bool" where
  "is_digit c \<longleftrightarrow> 48 \<le> (of_char c :: nat) \<and> (of_char c :: nat) \<le> 57"

fun atoi_digits :: "string \<Rightarrow> int \<Rightarrow> int" where
  "atoi_digits [] n = n"
| "atoi_digits (c # cs) n =
     (if is_digit c then atoi_digits cs (10 * n + (of_char c - 48)) else n)"

definition atoi :: "string \<Rightarrow> int" where
  "atoi s =
     (case dropWhile is_space s of
        [] \<Rightarrow> 0
      | c # cs \<Rightarrow>
          if c = CHR ''-'' then - atoi_digits cs 0
          else if c = CHR ''+'' then atoi_digits cs 0
          else atoi_digits (c # cs) 0)"

definition usage :: failure where
  "usage = Exit 1 (''Usage: ./tema1 <in_file> <out_file> <P>'' @ [CHR 0x0A])"

text \<open>
  Lines 295 to 322 of \<^verbatim>\<open>main\<close>, reached once \<^verbatim>\<open>argc\<close> has been checked: the worker count,
  the source image, the tile table, the choice of the working image and the grid. The
  source image is the image at address 0. A worker count that is not positive starts no
  worker, as the count 0 does. The arrays \<^verbatim>\<open>imagine\<close> and \<^verbatim>\<open>threads\<close> are taken to be
  allocated.
\<close>

record prepared =
  workers :: nat
  image_at :: nat
  scaled_image_at :: nat
  contour_tiles :: "ppm_image list"
  shared :: memory

definition prepare :: "env \<Rightarrow> string list \<Rightarrow> failure + prepared" where
  "prepare env argv =
     (let N = nat (atoi (argv ! 3))
      in and_then (read_ppm env (argv ! 1)) (\<lambda>img.
         and_then (init_contour_map env) (\<lambda>contour_map.
         and_then (if x img \<le> RESCALE_X \<and> y img \<le> RESCALE_Y
                   then Inr ([img], 0)
                   else and_then (allocate_rescale env) (\<lambda>new_image. Inr ([img, new_image], 1)))
           (\<lambda>(imgs, scaled_image).
         and_then (allocate_grid env (imgs ! scaled_image)) (\<lambda>g.
           Inr \<lparr>workers = N, image_at = 0, scaled_image_at = scaled_image,
                contour_tiles = contour_map,
                shared = \<lparr>images = imgs, grid_cells = g\<rparr>\<rparr>)))))"

text \<open>
  Lines 295 to 346 of \<^verbatim>\<open>main\<close>: what runs after the check of \<^verbatim>\<open>argc\<close>. A run that
  returns 0 gives the path and the image handed to \<^verbatim>\<open>write_ppm\<close>.
\<close>

definition main_body :: "env \<Rightarrow> string list \<Rightarrow> failure + string \<times> ppm_image" where
  "main_body env argv =
     and_then (prepare env argv) (\<lambda>pr.
       let imagine = map (\<lambda>i. \<lparr>arg_thread_id = i, arg_image = image_at pr,
                               arg_scaled_image = scaled_image_at pr, arg_N = workers pr\<rparr>)
                         [0..<workers pr]
       in and_then (run_workers env (contour_tiles pr) imagine (shared pr)) (\<lambda>m.
          and_then (load m (scaled_image_at pr)) (\<lambda>scaled_image.
            Inr (argv ! 2, scaled_image))))"

text \<open>
  \<^verbatim>\<open>main\<close>, with \<^verbatim>\<open>argv\<close> the program name followed by the arguments; \<^verbatim>\<open>argc\<close> is its
  length.
\<close>

definition main :: "env \<Rightarrow> string list \<Rightarrow> failure + string \<times> ppm_image" where
  "main env argv = (if length argv < 4 then Inl usage else main_body env argv)"

section \<open>Notions used to state and prove the properties\<close>

subsection \<open>Buffers of the right size\<close>

text \<open>
  An image whose buffer holds \<open>x * y\<close> pixels, and a grid of \<open>p + 1\<close> rows of
  \<open>q + 1\<close> cells, as \<open>allocate_grid\<close> builds it.
\<close>

definition wf_image :: "ppm_image \<Rightarrow> bool" where
  "wf_image img \<longleftrightarrow> length (data img) = x img * y img"

definition wf_grid :: "nat \<Rightarrow> nat \<Rightarrow> grid \<Rightarrow> bool" where
  "wf_grid p q g \<longleftrightarrow> length g = p + 1 \<and> (\<forall>r \<le> p. length (g ! r) = q + 1)"

definition same_frame :: "nat \<Rightarrow> nat \<Rightarrow> ppm_image \<Rightarrow> bool" where
  "same_frame X Y im \<longleftrightarrow> x im = X \<and> y im = Y \<and> length (data im) = X * Y"

text \<open>A grid of zeros and ones, and a table of 16 tiles of \<open>STEP\<close> by \<open>STEP\<close> pixels.\<close>

definition binary_grid :: "grid \<Rightarrow> bool" where
  "binary_grid g \<longleftrightarrow> (\<forall>row \<in> set g. \<forall>v \<in> set row. v = 0 \<or> v = 1)"

definition tile_table_ok :: "ppm_image list \<Rightarrow> bool" where
  "tile_table_ok contour_map \<longleftrightarrow>
     length contour_map = CONTOUR_CONFIG_COUNT \<and>
     (\<forall>tile \<in> set contour_map. x tile = STEP \<and> y tile = STEP \<and> length (data tile) = STEP * STEP)"

text \<open>
  The reads of the last-column loop of \<open>sample_grid\<close> for the rows from \<open>a\<close> up to
  \<open>b\<close> are inside the pixel buffer. The index uses \<open>x img\<close> where the length of a row
  is \<open>y img\<close>, so this can fail for an image with \<open>x img > STEP * y img\<close>.
\<close>

definition last_column_readable :: "ppm_image \<Rightarrow> nat \<Rightarrow> nat \<Rightarrow> bool" where
  "last_column_readable img a b \<longleftrightarrow>
     (\<forall>i \<in> {a..<b}. i * STEP * y img + x img - 1 < length (data img))"

subsection \<open>The range of a worker\<close>

definition part_range :: "nat \<Rightarrow> nat \<Rightarrow> nat \<Rightarrow> nat set" where
  "part_range t e N = {part_start t e N..<part_end t e N}"

subsection \<open>Computations that write cells\<close>

text \<open>
  \<open>writes ok cell inside f R s m\<close>: the computation \<open>m\<close>, started in \<open>s\<close>, returns a
  state that satisfies \<open>ok\<close> and whose cell \<open>(r, c)\<close> holds \<open>f r c\<close> where \<open>R r c\<close>, and
  what \<open>s\<close> held elsewhere.
\<close>

definition writes ::
  "('s \<Rightarrow> bool) \<Rightarrow> ('s \<Rightarrow> nat \<Rightarrow> nat \<Rightarrow> 'v) \<Rightarrow> (nat \<Rightarrow> nat \<Rightarrow> bool) \<Rightarrow> (nat \<Rightarrow> nat \<Rightarrow> 'v) \<Rightarrow>
   (nat \<Rightarrow> nat \<Rightarrow> bool) \<Rightarrow> 's \<Rightarrow> failure + 's \<Rightarrow> bool" where
  "writes ok cell inside f R s m \<longleftrightarrow>
     (\<exists>s'. m = Inr s' \<and> ok s' \<and>
        (\<forall>r c. inside r c \<longrightarrow> cell s' r c = (if R r c then f r c else cell s r c)))"

abbreviation gcell :: "grid \<Rightarrow> nat \<Rightarrow> nat \<Rightarrow> uchar" where
  "gcell g r c \<equiv> g ! r ! c"

abbreviation in_grid :: "nat \<Rightarrow> nat \<Rightarrow> nat \<Rightarrow> nat \<Rightarrow> bool" where
  "in_grid p q r c \<equiv> r \<le> p \<and> c \<le> q"

definition pcell :: "nat \<Rightarrow> ppm_image \<Rightarrow> nat \<Rightarrow> nat \<Rightarrow> ppm_pixel" where
  "pcell Y im r c = data im ! (r * Y + c)"

abbreviation in_image :: "nat \<Rightarrow> nat \<Rightarrow> nat \<Rightarrow> nat \<Rightarrow> bool" where
  "in_image X Y r c \<equiv> r < X \<and> c < Y"

abbreviation mcell :: "nat \<Rightarrow> nat \<Rightarrow> memory \<Rightarrow> nat \<Rightarrow> nat \<Rightarrow> ppm_pixel" where
  "mcell Y b m r c \<equiv> pcell Y (images m ! b) r c"

subsection \<open>What the sampler stores\<close>

text \<open>
  The value \<open>sample_grid\<close> stores in the cell \<open>(r, c)\<close> of the grid of a non-empty
  image, following the four parts of the function; the cells a worker's call stores;
  and the grid in which every cell has been stored.
\<close>

definition sample_value :: "ppm_image \<Rightarrow> nat \<Rightarrow> nat \<Rightarrow> uchar" where
  "sample_value img r c =
     (if r < x img div STEP \<and> c < y img div STEP
        then threshold (data img ! (r * STEP * y img + c * STEP))
      else if r < x img div STEP
        then threshold (data img ! (r * STEP * y img + x img - 1))
      else if c < y img div STEP
        then threshold (data img ! ((x img - 1) * y img + c * STEP))
      else 0)"

definition sampled_by :: "nat \<Rightarrow> nat \<Rightarrow> nat \<Rightarrow> nat \<Rightarrow> nat \<Rightarrow> nat \<Rightarrow> bool" where
  "sampled_by p q t N r c \<longleftrightarrow>
     (part_start t p N \<le> r \<and> r < part_end t p N \<and> c \<le> q) \<or>
     (r = p \<and> c = q) \<or>
     (r = p \<and> part_start t q N \<le> c \<and> c < part_end t q N)"

definition sampled :: "ppm_image \<Rightarrow> grid" where
  "sampled img =
     map (\<lambda>r. map (\<lambda>c. sample_value img r c) [0..<y img div STEP + 1]) [0..<x img div STEP + 1]"

text \<open>The grid \<open>g'\<close> has the shape of \<open>g\<close> and differs from it only in cells that hold 0 or 1.\<close>

definition bits_written :: "grid \<Rightarrow> grid \<Rightarrow> bool" where
  "bits_written g g' \<longleftrightarrow> length g' = length g \<and>
     (\<forall>r < length g. length (g' ! r) = length (g ! r) \<and>
        (\<forall>c < length (g ! r). g' ! r ! c = g ! r ! c \<or> g' ! r ! c = 0 \<or> g' ! r ! c = 1))"

subsection \<open>What the compositor stamps\<close>

text \<open>
  The index of the cell \<open>(i, j)\<close> as a number, and the pixel that \<open>march\<close> puts at
  \<open>(r, c)\<close>: the pixel \<open>(r mod STEP, c mod STEP)\<close> of the tile of the cell around it.
\<close>

definition config_value :: "grid \<Rightarrow> nat \<Rightarrow> nat \<Rightarrow> nat" where
  "config_value g i j =
     8 * unat (g ! i ! j) + 4 * unat (g ! i ! (j + 1)) + 2 * unat (g ! (i + 1) ! (j + 1))
       + 1 * unat (g ! (i + 1) ! j)"

definition stamp_value :: "ppm_image list \<Rightarrow> grid \<Rightarrow> nat \<Rightarrow> nat \<Rightarrow> ppm_pixel" where
  "stamp_value contour_map g r c =
     data (contour_map ! config_value g (r div STEP) (c div STEP)) ! (STEP * (r mod STEP) + c mod STEP)"

subsection \<open>The stages of a run\<close>

text \<open>
  The argument of worker \<open>t\<close>, as \<open>main\<close> fills it in; a memory that differs from the
  images \<open>IM\<close> and the grid \<open>G\<close> only in the image at address \<open>b\<close>, which keeps its size.
\<close>

definition worker :: "nat \<Rightarrow> nat \<Rightarrow> nat \<Rightarrow> nat \<Rightarrow> image_arg" where
  "worker a b N t = \<lparr>arg_thread_id = t, arg_image = a, arg_scaled_image = b, arg_N = N\<rparr>"

definition frame_mem :: "grid \<Rightarrow> ppm_image list \<Rightarrow> nat \<Rightarrow> nat \<Rightarrow> nat \<Rightarrow> memory \<Rightarrow> bool" where
  "frame_mem G IM b X Y m \<longleftrightarrow>
     grid_cells m = G \<and> length (images m) = length IM \<and>
     (\<forall>a < length IM. a \<noteq> b \<longrightarrow> images m ! a = IM ! a) \<and>
     same_frame X Y (images m ! b)"

text \<open>
  The source image needs no rescaling; the image \<open>w\<close> is the source rescaled, every pixel
  written; the image \<open>out\<close> is \<open>w\<close> with a tile stamped on every cell of its grid; \<open>w\<close>
  is the working image of a run on the source image.
\<close>

definition fits :: "ppm_image \<Rightarrow> bool" where
  "fits src \<longleftrightarrow> x src \<le> RESCALE_X \<and> y src \<le> RESCALE_Y"

definition is_rescaled :: "bicubic \<Rightarrow> ppm_image \<Rightarrow> ppm_image \<Rightarrow> bool" where
  "is_rescaled bicubic src w \<longleftrightarrow>
     same_frame RESCALE_X RESCALE_Y w \<and>
     (\<forall>r < RESCALE_X. \<forall>c < RESCALE_Y.
        data w ! (r * RESCALE_Y + c) = bicubic src (r, RESCALE_X - 1) (c, RESCALE_Y - 1))"

definition is_marched :: "ppm_image list \<Rightarrow> ppm_image \<Rightarrow> ppm_image \<Rightarrow> bool" where
  "is_marched contour_map w out \<longleftrightarrow>
     same_frame (x w) (y w) out \<and>
     (\<forall>r < x w. \<forall>c < y w.
        data out ! (r * y w + c) =
          (if r div STEP < x w div STEP \<and> c div STEP < y w div STEP
           then stamp_value contour_map (sampled w) r c else data w ! (r * y w + c)))"

definition is_working :: "env \<Rightarrow> ppm_image \<Rightarrow> ppm_image \<Rightarrow> bool" where
  "is_working env src w \<longleftrightarrow> (if fits src then w = src else is_rescaled (sample_bicubic env) src w)"

text \<open>
  The size of the working image, and a worker count that is at least 1 and divides
  every extent the stages partition: the rows and columns of the grid of the working
  image, and the rows of the rescaled image when the source is rescaled.
\<close>

definition working_x :: "ppm_image \<Rightarrow> nat" where
  "working_x src = (if fits src then x src else RESCALE_X)"

definition working_y :: "ppm_image \<Rightarrow> nat" where
  "working_y src = (if fits src then y src else RESCALE_Y)"

definition divides_extents :: "nat \<Rightarrow> ppm_image \<Rightarrow> bool" where
  "divides_extents N src \<longleftrightarrow>
     0 < N \<and> N dvd working_x src div STEP \<and> N dvd working_y src div STEP \<and>
     (fits src \<or> N dvd RESCALE_X)"

text \<open>Every allocation succeeds; the rescaled image as \<open>allocate_rescale\<close> then returns it.\<close>

definition all_allocated :: "env \<Rightarrow> bool" where
  "all_allocated env \<longleftrightarrow> (\<forall>site. malloc_ok env site)"

definition fresh_image :: "env \<Rightarrow> ppm_image" where
  "fresh_image env = \<lparr>x = RESCALE_X, y = RESCALE_Y,
     data = map (fresh_pixel env) [0..<RESCALE_X * RESCALE_Y]\<rparr>"

subsection \<open>Example data\<close>

definition white :: ppm_pixel where
  "white = \<lparr>red = 255, green = 255, blue = 255\<rparr>"

definition black :: ppm_pixel where
  "black = \<lparr>red = 0, green = 0, blue = 0\<rparr>"

text \<open>An image of \<open>h\<close> rows of \<open>w\<close> pixels of one colour, and a grid of one value.\<close>

definition flat_image :: "nat \<Rightarrow> nat \<Rightarrow> ppm_pixel \<Rightarrow> ppm_image" where
  "flat_image h w px = \<lparr>x = h, y = w, data = replicate (h * w) px\<rparr>"

definition flat_grid :: "nat \<Rightarrow> nat \<Rightarrow> uchar \<Rightarrow> grid" where
  "flat_grid p q v = replicate (p + 1) (replicate (q + 1) v)"

text \<open>
  An image with 8 rows of 16 pixels, white except for the pixel at offset 7 of the first
  row.
\<close>

definition wide :: ppm_image where
  "wide = \<lparr>x = 8, y = 16, data = (replicate 128 white)[7 := black]\<rparr>"

text \<open>
  An environment in which \<^verbatim>\<open>in.ppm\<close> is an 8 by 8 white image, every tile is black and
  every allocation succeeds; fresh grid cells hold 7.
\<close>

definition small_env :: env where
  "small_env = \<lparr>read_ppm = (\<lambda>path. Inr (if path = ''in.ppm'' then flat_image 8 8 white else flat_image 8 8 black)),
     sample_bicubic = (\<lambda>img u v. black),
     malloc_ok = (\<lambda>site. True),
     fresh_pixel = (\<lambda>k. black),
     fresh_cell = (\<lambda>i j. 7)\<rparr>"

text \<open>The same with a 16 by 16 white image.\<close>

definition white_env :: env where
  "white_env = small_env\<lparr>read_ppm :=
     (\<lambda>path. Inr (if path = ''in.ppm'' then flat_image 16 16 white else flat_image 8 8 black))\<rparr>"

text \<open>An environment in which only the allocation of the rescaled pixel buffer fails.\<close>

definition no_pixel_buffer_env :: env where
  "no_pixel_buffer_env = small_env\<lparr>malloc_ok := (\<lambda>site. site \<noteq> Rescale_Data)\<rparr>"

section \<open>Lemmas\<close>

subsection \<open>Sequencing and loops\<close>

lemma and_then_Inr [simp]: "and_then (Inr v) f = f v"
  by (simp add: and_then_def)

lemma and_then_Inl [simp]: "and_then (Inl e) f = Inl e"
  by (simp add: and_then_def)

lemma pixel_at_int_nat: "pixel_at_int img (int k) = pixel_at img k"
  by (simp add: pixel_at_int_def)

lemma iterate_append:
  "iterate (xs @ ys) body s = and_then (iterate xs body s) (iterate ys body)"
  by (induction xs arbitrary: s) (auto split: sum.splits)

lemma iterate_single: "iterate [i] body = body i"
  by (rule ext) (simp split: sum.splits)

lemma for_range_empty [simp]: "b \<le> a \<Longrightarrow> for_range a b body s = Inr s"
  by (simp add: for_range_def)

lemma for_range_Suc:
  "a \<le> b \<Longrightarrow> for_range a (Suc b) body s = and_then (for_range a b body s) (body b)"
  by (simp add: for_range_def iterate_append iterate_single)

lemma for_range_rule:
  assumes "a \<le> b" and "P a s"
    and step: "\<And>i s. a \<le> i \<Longrightarrow> i < b \<Longrightarrow> P i s \<Longrightarrow> \<exists>s'. body i s = Inr s' \<and> P (Suc i) s'"
  shows "\<exists>s'. for_range a b body s = Inr s' \<and> P b s'"
  using assms(1) step
proof (induction b rule: dec_induct)
  case base
  then show ?case using assms(2) by simp
next
  case (step n)
  from step.IH step.prems obtain s1 where s1: "for_range a n body s = Inr s1" "P n s1"
    by (metis less_Suc_eq)
  from step.prems [OF step.hyps(1) _ s1(2)] obtain s2 where "body n s1 = Inr s2" "P (Suc n) s2"
    by auto
  then show ?case using s1 step.hyps by (simp add: for_range_Suc)
qed

subsection \<open>Thresholds and configuration indices\<close>

lemma curr_color_unat:
  "unat (curr_color px) = (unat (red px) + unat (green px) + unat (blue px)) div 3"
proof -
  have "unat (red px) < 256" "unat (green px) < 256" "unat (blue px) < 256"
    using unsigned_less [of "red px"] unsigned_less [of "green px"] unsigned_less [of "blue px"]
    by simp_all
  then have "(unat (red px) + unat (green px) + unat (blue px)) div 3 < 256" by linarith
  then show ?thesis by (simp add: curr_color_def unat_of_nat)
qed

lemma threshold_cases: "threshold px = 0 \<or> threshold px = 1"
  by (simp add: threshold_def)

lemma threshold_avg:
  "threshold px = (if (unat (red px) + unat (green px) + unat (blue px)) div 3 \<le> 200 then 1 else 0)"
  by (simp add: threshold_def curr_color_unat SIGMA'_def)

lemma config_bound:
  assumes "a \<in> {0, 1}" "b \<in> {0, 1}" "c \<in> {0, 1}" "d \<in> {0, 1::uchar}"
  shows "unat (of_nat (8 * unat a + 4 * unat b + 2 * unat c + 1 * unat d) :: uchar) = 8 * unat a + 4 * unat b + 2 * unat c + unat d"
   and "8 * unat a + 4 * unat b + 2 * unat c + unat d \<le> 15"
  using assms by (auto simp: unat_of_nat)


subsection \<open>Composing computations that write cells\<close>

lemma writes_cong:
  assumes "writes ok cell inside f R s m" and "\<And>r c. inside r c \<Longrightarrow> R r c = R' r c"
  shows "writes ok cell inside f R' s m"
  using assms unfolding writes_def by auto

lemma writes_skip: "ok s \<Longrightarrow> writes ok cell inside f (\<lambda>r c. False) s (Inr s)"
  by (simp add: writes_def)

lemma writes_seq:
  assumes "writes ok cell inside f R1 s m"
    and "\<And>s1. ok s1 \<Longrightarrow> writes ok cell inside f R2 s1 (k s1)"
  shows "writes ok cell inside f (\<lambda>r c. R1 r c \<or> R2 r c) s (and_then m k)"
proof -
  from assms(1) obtain s1 where s1: "m = Inr s1" "ok s1"
    "\<forall>r c. inside r c \<longrightarrow> cell s1 r c = (if R1 r c then f r c else cell s r c)"
    unfolding writes_def by blast
  from assms(2) [OF s1(2)] obtain s2 where s2: "k s1 = Inr s2" "ok s2"
    "\<forall>r c. inside r c \<longrightarrow> cell s2 r c = (if R2 r c then f r c else cell s1 r c)"
    unfolding writes_def by blast
  show ?thesis unfolding writes_def using s1 s2 by auto
qed

lemma writes_iterate:
  assumes "ok s"
    and step: "\<And>t s1. t \<in> set ts \<Longrightarrow> ok s1 \<Longrightarrow> writes ok cell inside f (R t) s1 (body t s1)"
  shows "writes ok cell inside f (\<lambda>r c. \<exists>t \<in> set ts. R t r c) s (iterate ts body s)"
  using assms
proof (induction ts arbitrary: s)
  case Nil
  then show ?case by (simp add: writes_def)
next
  case (Cons t ts)
  have first: "writes ok cell inside f (R t) s (body t s)"
    using Cons.prems by simp
  have rest: "writes ok cell inside f (\<lambda>r c. \<exists>u \<in> set ts. R u r c) s1 (iterate ts body s1)"
    if "ok s1" for s1
    using Cons.IH [OF that] Cons.prems(2) by simp
  have "writes ok cell inside f (\<lambda>r c. R t r c \<or> (\<exists>u \<in> set ts. R u r c)) s
      (and_then (body t s) (iterate ts body))"
    using first rest by (rule writes_seq)
  moreover have "iterate (t # ts) body s = and_then (body t s) (iterate ts body)"
    by (simp add: and_then_def)
  ultimately show ?case by (simp add: writes_def)
qed

lemma writes_loop:
  assumes "ok s" and "a \<le> b"
    and step: "\<And>i s1. a \<le> i \<Longrightarrow> i < b \<Longrightarrow> ok s1 \<Longrightarrow> writes ok cell inside f (R i) s1 (body i s1)"
  shows "writes ok cell inside f (\<lambda>r c. \<exists>i. a \<le> i \<and> i < b \<and> R i r c) s (for_range a b body s)"
proof -
  let ?P = "\<lambda>n s'. ok s' \<and> (\<forall>r c. inside r c \<longrightarrow>
      cell s' r c = (if \<exists>i. a \<le> i \<and> i < n \<and> R i r c then f r c else cell s r c))"
  have "\<exists>s'. for_range a b body s = Inr s' \<and> ?P b s'"
  proof (rule for_range_rule [where P = ?P])
    show "a \<le> b" by fact
    show "?P a s" using assms(1) by auto
  next
    fix i s1 assume i: "a \<le> i" "i < b" and P: "?P i s1"
    from step [OF i] P obtain s2 where s2: "body i s1 = Inr s2" "ok s2"
      "\<forall>r c. inside r c \<longrightarrow> cell s2 r c = (if R i r c then f r c else cell s1 r c)"
      unfolding writes_def by blast
    have "\<forall>r c. inside r c \<longrightarrow>
      cell s2 r c = (if \<exists>k. a \<le> k \<and> k < Suc i \<and> R k r c then f r c else cell s r c)"
    proof (intro allI impI)
      fix r c assume d: "inside r c"
      show "cell s2 r c = (if \<exists>k. a \<le> k \<and> k < Suc i \<and> R k r c then f r c else cell s r c)"
      proof (cases "R i r c")
        case True
        then show ?thesis using s2(3) d i by auto
      next
        case False
        have "(\<exists>k. a \<le> k \<and> k < Suc i \<and> R k r c) = (\<exists>k. a \<le> k \<and> k < i \<and> R k r c)"
          using False less_Suc_eq by auto
        then show ?thesis using s2(3) d P False by simp
      qed
    qed
    then show "\<exists>s'. body i s1 = Inr s' \<and> ?P (Suc i) s'" using s2 by blast
  qed
  then show ?thesis unfolding writes_def by blast
qed

subsection \<open>Sampling: the cells a call stores\<close>

lemma grid_set_writes:
  assumes "wf_grid p q g" "i \<le> p" "j \<le> q" "v = f i j"
  shows "writes (wf_grid p q) gcell (\<lambda>r c. r \<le> p \<and> c \<le> q) f (\<lambda>r c. r = i \<and> c = j) g (grid_set g i j v)"
  using assms by (auto simp: writes_def grid_set_def wf_grid_def nth_list_update)

lemma index_in_image: "r < X \<Longrightarrow> c < Y \<Longrightarrow> r * Y + c < X * (Y::nat)"
proof -
  assume "r < X" "c < Y"
  then have "r * Y + c < Suc r * Y" by simp
  also have "\<dots> \<le> X * Y" using \<open>r < X\<close> by (intro mult_le_mono1) simp
  finally show ?thesis .
qed

lemma part_end_le: "t < N \<Longrightarrow> part_end t e N \<le> e"
proof -
  assume "t < N"
  then have "(t + 1) * (e div N) \<le> N * (e div N)" by (intro mult_le_mono1) simp
  also have "\<dots> \<le> e" by simp
  finally show ?thesis by (simp add: part_end_def)
qed

lemma part_start_le_end: "part_start t e N \<le> part_end t e N"
  by (simp add: part_start_def part_end_def)

lemma step_index: "i < n div STEP \<Longrightarrow> i * STEP < n"
  by (simp add: STEP_def)

lemma sample_interior_writes:
  assumes img: "wf_image img" and g: "wf_grid (x img div STEP) (y img div STEP) g"
    and ab: "a \<le> b" "b \<le> x img div STEP"
  shows "writes (wf_grid (x img div STEP) (y img div STEP)) gcell (in_grid (x img div STEP) (y img div STEP))
     (sample_value img) (\<lambda>r c. a \<le> r \<and> r < b \<and> c < y img div STEP) g
     (sample_interior img (y img div STEP) a b g)"
proof -
  let ?p = "x img div STEP" and ?q = "y img div STEP"
  have inner: "writes (wf_grid ?p ?q) gcell (in_grid ?p ?q) (sample_value img)
      (\<lambda>r c. \<exists>j. 0 \<le> j \<and> j < ?q \<and> r = i \<and> c = j) g1
      (for_range 0 ?q (\<lambda>j g. and_then (pixel_at img (i * STEP * y img + j * STEP))
           (\<lambda>curr_pixel. grid_set g i j (threshold curr_pixel))) g1)"
    if i: "a \<le> i" "i < b" and g1: "wf_grid ?p ?q g1" for i g1
  proof (rule writes_loop [where ok = "wf_grid ?p ?q", OF g1])
    fix j s1 assume j: "0 \<le> j" "j < ?q" and s1: "wf_grid ?p ?q s1"
    have "i * STEP < x img" "j * STEP < y img" using i ab j by (auto intro: step_index)
    then have "i * STEP * y img + j * STEP < length (data img)"
      using img by (simp add: wf_image_def index_in_image)
    then have "pixel_at img (i * STEP * y img + j * STEP) = Inr (data img ! (i * STEP * y img + j * STEP))"
      by (simp add: pixel_at_def)
    moreover have "threshold (data img ! (i * STEP * y img + j * STEP)) = sample_value img i j"
      using i ab j by (simp add: sample_value_def)
    ultimately show "writes (wf_grid ?p ?q) gcell (in_grid ?p ?q) (sample_value img) (\<lambda>r c. r = i \<and> c = j) s1
        (and_then (pixel_at img (i * STEP * y img + j * STEP)) (\<lambda>curr_pixel. grid_set s1 i j (threshold curr_pixel)))"
      using grid_set_writes [OF s1, of i j] i ab j by simp
  qed simp
  have "writes (wf_grid ?p ?q) gcell (in_grid ?p ?q) (sample_value img)
      (\<lambda>r c. \<exists>i. a \<le> i \<and> i < b \<and> (\<exists>j. 0 \<le> j \<and> j < ?q \<and> r = i \<and> c = j)) g
      (sample_interior img ?q a b g)"
    unfolding sample_interior_def
    by (rule writes_loop [where ok = "wf_grid ?p ?q", OF g ab(1)]) (rule inner)
  then show ?thesis by (rule writes_cong) auto
qed

lemma sample_last_column_writes:
  assumes img: "wf_image img" and g: "wf_grid (x img div STEP) (y img div STEP) g"
    and ab: "a \<le> b" "b \<le> x img div STEP"
    and inb: "\<And>i. a \<le> i \<Longrightarrow> i < b \<Longrightarrow> i * STEP * y img + x img - 1 < length (data img)"
  shows "writes (wf_grid (x img div STEP) (y img div STEP)) gcell (in_grid (x img div STEP) (y img div STEP))
     (sample_value img) (\<lambda>r c. a \<le> r \<and> r < b \<and> c = y img div STEP) g
     (sample_last_column img (y img div STEP) a b g)"
proof -
  let ?p = "x img div STEP" and ?q = "y img div STEP"
  have "writes (wf_grid ?p ?q) gcell (in_grid ?p ?q) (sample_value img)
      (\<lambda>r c. \<exists>i. a \<le> i \<and> i < b \<and> r = i \<and> c = ?q) g
      (sample_last_column img ?q a b g)"
    unfolding sample_last_column_def
  proof (rule writes_loop [where ok = "wf_grid ?p ?q", OF g ab(1)])
    fix i s1 assume i: "a \<le> i" "i < b" and s1: "wf_grid ?p ?q s1"
    have "i < x img div STEP" using i ab by simp
    then have "0 < x img" by (cases "x img = 0") simp_all
    then have "int (i * STEP * y img) + int (x img) - 1 = int (i * STEP * y img + x img - 1)" by simp
    then have "pixel_at_int img (int (i * STEP * y img) + int (x img) - 1)
        = pixel_at img (i * STEP * y img + x img - 1)"
      by (simp only: pixel_at_int_nat)
    then have "pixel_at_int img (int (i * STEP * y img) + int (x img) - 1)
        = Inr (data img ! (i * STEP * y img + x img - 1))"
      using inb [OF i] by (simp add: pixel_at_def)
    moreover have "threshold (data img ! (i * STEP * y img + x img - 1)) = sample_value img i ?q"
      using i ab by (simp add: sample_value_def)
    ultimately show "writes (wf_grid ?p ?q) gcell (in_grid ?p ?q) (sample_value img) (\<lambda>r c. r = i \<and> c = ?q) s1
        (and_then (pixel_at_int img (int (i * STEP * y img) + int (x img) - 1))
           (\<lambda>curr_pixel. grid_set s1 i ?q (threshold curr_pixel)))"
      using grid_set_writes [OF s1, of i ?q] i ab by simp
  qed
  then show ?thesis by (rule writes_cong) auto
qed

lemma sample_last_row_writes:
  assumes img: "wf_image img" and g: "wf_grid (x img div STEP) (y img div STEP) g"
    and ab: "a \<le> b" "b \<le> y img div STEP" and pos: "0 < x img"
  shows "writes (wf_grid (x img div STEP) (y img div STEP)) gcell (in_grid (x img div STEP) (y img div STEP))
     (sample_value img) (\<lambda>r c. r = x img div STEP \<and> a \<le> c \<and> c < b) g
     (sample_last_row img (x img div STEP) a b g)"
proof -
  let ?p = "x img div STEP" and ?q = "y img div STEP"
  have "writes (wf_grid ?p ?q) gcell (in_grid ?p ?q) (sample_value img)
      (\<lambda>r c. \<exists>j. a \<le> j \<and> j < b \<and> r = ?p \<and> c = j) g
      (sample_last_row img ?p a b g)"
    unfolding sample_last_row_def
  proof (rule writes_loop [where ok = "wf_grid ?p ?q", OF g ab(1)])
    fix j s1 assume j: "a \<le> j" "j < b" and s1: "wf_grid ?p ?q s1"
    have "j * STEP < y img" using j ab by (auto intro: step_index)
    then have "(x img - 1) * y img + j * STEP < length (data img)"
      using img pos by (simp add: wf_image_def index_in_image)
    then have "pixel_at img ((x img - 1) * y img + j * STEP) = Inr (data img ! ((x img - 1) * y img + j * STEP))"
      by (simp add: pixel_at_def)
    moreover have "(int (x img) - 1) * int (y img) + int (j * STEP) = int ((x img - 1) * y img + j * STEP)"
      using pos by (simp add: of_nat_diff)
    then have "pixel_at_int img ((int (x img) - 1) * int (y img) + int (j * STEP))
        = pixel_at img ((x img - 1) * y img + j * STEP)"
      by (simp only: pixel_at_int_nat)
    ultimately have "pixel_at_int img ((int (x img) - 1) * int (y img) + int (j * STEP))
        = Inr (data img ! ((x img - 1) * y img + j * STEP))"
      by simp
    moreover have "threshold (data img ! ((x img - 1) * y img + j * STEP)) = sample_value img ?p j"
      using j ab by (simp add: sample_value_def)
    ultimately show "writes (wf_grid ?p ?q) gcell (in_grid ?p ?q) (sample_value img) (\<lambda>r c. r = ?p \<and> c = j) s1
        (and_then (pixel_at_int img ((int (x img) - 1) * int (y img) + int (j * STEP)))
           (\<lambda>curr_pixel. grid_set s1 ?p j (threshold curr_pixel)))"
      using grid_set_writes [OF s1, of ?p j] j ab pos by simp
  qed
  then show ?thesis by (rule writes_cong) auto
qed

text \<open>One worker's call of \<open>sample_grid\<close>.\<close>

lemma sample_grid_writes:
  assumes img: "wf_image img" and g: "wf_grid (x img div STEP) (y img div STEP) g"
    and N: "t < N" and pos: "0 < x img"
    and inb: "\<And>i. part_start t (x img div STEP) N \<le> i \<Longrightarrow> i < part_end t (x img div STEP) N \<Longrightarrow>
        i * STEP * y img + x img - 1 < length (data img)"
  shows "writes (wf_grid (x img div STEP) (y img div STEP)) gcell (in_grid (x img div STEP) (y img div STEP))
     (sample_value img) (sampled_by (x img div STEP) (y img div STEP) t N) g
     (sample_grid img g t N)"
proof -
  let ?p = "x img div STEP" and ?q = "y img div STEP"
  let ?W = "writes (wf_grid ?p ?q) gcell (in_grid ?p ?q) (sample_value img)"
  have N0: "N \<noteq> 0" using N by simp
  have corner: "sample_value img ?p ?q = 0" by (simp add: sample_value_def)
  have "?W (\<lambda>r c. (part_start t ?p N \<le> r \<and> r < part_end t ?p N \<and> c < ?q) \<or>
             ((r = ?p \<and> c = ?q) \<or>
             ((part_start t ?p N \<le> r \<and> r < part_end t ?p N \<and> c = ?q) \<or>
              (r = ?p \<and> part_start t ?q N \<le> c \<and> c < part_end t ?q N)))) g (sample_grid img g t N)"
    unfolding sample_grid_def Let_def if_not_P [OF N0]
  proof (intro writes_seq)
    show "?W (\<lambda>r c. part_start t ?p N \<le> r \<and> r < part_end t ?p N \<and> c < ?q) g
        (sample_interior img ?q (part_start t ?p N) (part_end t ?p N) g)"
      by (rule sample_interior_writes [OF img g part_start_le_end part_end_le [OF N]])
  next
    fix s1 assume "wf_grid ?p ?q s1"
    then show "?W (\<lambda>r c. r = ?p \<and> c = ?q) s1 (grid_set s1 ?p ?q 0)"
      using grid_set_writes [of ?p ?q s1 ?p ?q 0 "sample_value img"] corner by simp
  next
    fix s1 assume "wf_grid ?p ?q s1"
    then show "?W (\<lambda>r c. part_start t ?p N \<le> r \<and> r < part_end t ?p N \<and> c = ?q) s1
        (sample_last_column img ?q (part_start t ?p N) (part_end t ?p N) s1)"
      by (rule sample_last_column_writes [OF img _ part_start_le_end part_end_le [OF N] inb])
  next
    fix s1 assume "wf_grid ?p ?q s1"
    then show "?W (\<lambda>r c. r = ?p \<and> part_start t ?q N \<le> c \<and> c < part_end t ?q N) s1
        (sample_last_row img ?p (part_start t ?q N) (part_end t ?q N) s1)"
      by (rule sample_last_row_writes [OF img _ part_start_le_end part_end_le [OF N] pos])
  qed
  then show ?thesis
    by (rule writes_cong) (auto simp: sampled_by_def)
qed

subsection \<open>Sampling: only bits are stored\<close>

lemma iterate_preserves:
  assumes "iterate ks body s = Inr s'" and "I s"
    and "\<And>i s s'. i \<in> set ks \<Longrightarrow> I s \<Longrightarrow> body i s = Inr s' \<Longrightarrow> I s'"
  shows "I s'"
  using assms
proof (induction ks arbitrary: s)
  case Nil
  then show ?case by simp
next
  case (Cons k ks)
  from Cons.prems(1) obtain s1 where s1: "body k s = Inr s1" "iterate ks body s1 = Inr s'"
    by (auto split: sum.splits)
  have "I s1" using Cons.prems(3) [of k s s1] Cons.prems(2) s1(1) by simp
  show ?case
  proof (rule Cons.IH [OF s1(2) \<open>I s1\<close>])
    fix i s s' assume "i \<in> set ks" "I s" "body i s = Inr s'"
    then show "I s'" using Cons.prems(3) [of i s s'] by simp
  qed
qed

lemma for_range_preserves:
  assumes "for_range a b body s = Inr s'" and "I s"
    and "\<And>i s s'. I s \<Longrightarrow> body i s = Inr s' \<Longrightarrow> I s'"
  shows "I s'"
  using assms iterate_preserves [of "[a..<b]" body s s' I] by (simp add: for_range_def)

lemma bits_written_refl: "bits_written g g"
  by (simp add: bits_written_def)

lemma bits_written_set:
  assumes "bits_written g g1" and "grid_set g1 i j v = Inr g2" and "v = 0 \<or> v = 1"
  shows "bits_written g g2"
proof -
  from assms(2) have g2: "g2 = g1[i := (g1 ! i)[j := v]]" and i: "i < length g1"
    by (auto simp: grid_set_def split: if_splits)
  have len: "length g1 = length g" and
    rows: "\<And>r. r < length g \<Longrightarrow> length (g1 ! r) = length (g ! r)" and
    cells: "\<And>r c. r < length g \<Longrightarrow> c < length (g ! r) \<Longrightarrow>
      g1 ! r ! c = g ! r ! c \<or> g1 ! r ! c = 0 \<or> g1 ! r ! c = 1"
    using assms(1) by (auto simp: bits_written_def)
  show ?thesis unfolding bits_written_def
  proof (intro conjI allI impI)
    show "length g2 = length g" using len g2 by simp
  next
    fix r assume "r < length g"
    then show "length (g2 ! r) = length (g ! r)" using rows [of r] len g2 i by (auto simp: nth_list_update)
  next
    fix r c assume rc: "r < length g" "c < length (g ! r)"
    show "g2 ! r ! c = g ! r ! c \<or> g2 ! r ! c = 0 \<or> g2 ! r ! c = 1"
    proof (cases "r = i \<and> c = j")
      case True
      then show ?thesis using rc rows [of r] len g2 i assms(3) by auto
    next
      case False
      then have "g2 ! r ! c = g1 ! r ! c" using rc len g2 i by (auto simp: nth_list_update)
      then show ?thesis using cells [OF rc] by simp
    qed
  qed
qed

lemma bits_written_threshold:
  assumes "bits_written g g1"
    and "and_then m (\<lambda>px. grid_set g1 i j (threshold px)) = Inr g2"
  shows "bits_written g g2"
proof (cases m)
  case (Inl e)
  then show ?thesis using assms by simp
next
  case (Inr px)
  then show ?thesis using assms bits_written_set [OF assms(1) _ threshold_cases] by simp
qed

lemma sample_grid_bits:
  assumes "sample_grid img g t N = Inr g'"
  shows "bits_written g g'"
proof -
  let ?p = "x img div STEP" and ?q = "y img div STEP"
  from assms obtain g1 g2 g3 where
    g1: "sample_interior img ?q (part_start t ?p N) (part_end t ?p N) g = Inr g1" and
    g2: "grid_set g1 ?p ?q 0 = Inr g2" and
    g3: "sample_last_column img ?q (part_start t ?p N) (part_end t ?p N) g2 = Inr g3" and
    g4: "sample_last_row img ?p (part_start t ?q N) (part_end t ?q N) g3 = Inr g'"
    by (auto simp: sample_grid_def Let_def and_then_def split: if_splits sum.splits)
  have "bits_written g g1"
    using g1 unfolding sample_interior_def
  proof (rule for_range_preserves [where I = "bits_written g"])
    fix i s s'
    assume "bits_written g s" and
      "for_range 0 ?q (\<lambda>j g. and_then (pixel_at img (i * STEP * y img + j * STEP))
          (\<lambda>curr_pixel. grid_set g i j (threshold curr_pixel))) s = Inr s'"
    from this(2,1) show "bits_written g s'"
      by (rule for_range_preserves) (rule bits_written_threshold)
  qed (rule bits_written_refl)
  then have "bits_written g g2" using g2 by (rule bits_written_set) simp
  have "bits_written g g3"
    using g3 \<open>bits_written g g2\<close> unfolding sample_last_column_def
    by (rule for_range_preserves) (rule bits_written_threshold)
  show ?thesis
    using g4 \<open>bits_written g g3\<close> unfolding sample_last_row_def
    by (rule for_range_preserves) (rule bits_written_threshold)
qed

subsection \<open>The partition\<close>

lemma part_range_iff:
  "i \<in> part_range t e N \<longleftrightarrow> t * (e div N) \<le> i \<and> i < (t + 1) * (e div N)"
  by (simp add: part_range_def part_start_def part_end_def)

lemma part_range_disjoint:
  assumes "t < u"
  shows "part_range t e N \<inter> part_range u e N = {}"
proof -
  have "(t + 1) * (e div N) \<le> u * (e div N)" using assms by (intro mult_le_mono1) simp
  then show ?thesis by (auto simp: part_range_iff)
qed

lemma part_range_owner:
  assumes "i < N * (e div N)"
  shows "i div (e div N) < N" and "i \<in> part_range (i div (e div N)) e N"
proof -
  have k: "0 < e div N" using assms by (cases "e div N = 0") simp_all
  show "i div (e div N) < N" using assms k by (simp add: less_mult_imp_div_less mult.commute)
  have "i div (e div N) * (e div N) \<le> i" by simp
  moreover have "i < (i div (e div N) + 1) * (e div N)"
    using k dividend_less_div_times [of "e div N" i] by (simp add: algebra_simps)
  ultimately show "i \<in> part_range (i div (e div N)) e N" by (simp add: part_range_iff)
qed

lemma part_range_union: "(\<Union>t<N. part_range t e N) = {0..<N * (e div N)}"
proof (intro set_eqI iffI)
  fix i assume "i \<in> (\<Union>t<N. part_range t e N)"
  then obtain t where t: "t < N" "i < (t + 1) * (e div N)" by (auto simp: part_range_iff)
  have "(t + 1) * (e div N) \<le> N * (e div N)" using t(1) by (intro mult_le_mono1) simp
  then show "i \<in> {0..<N * (e div N)}" using t(2) by simp
next
  fix i assume "i \<in> {0..<N * (e div N)}"
  then have "i < N * (e div N)" by simp
  from part_range_owner [OF this] show "i \<in> (\<Union>t<N. part_range t e N)" by blast
qed

lemma part_range_unique:
  assumes "i \<in> part_range t e N" "i \<in> part_range u e N"
  shows "t = u"
proof (rule ccontr)
  assume "t \<noteq> u"
  then consider "t < u" | "u < t" by linarith
  then show False using part_range_disjoint [of t u e N] part_range_disjoint [of u t e N] assms by cases auto
qed

subsection \<open>Marching: the pixels a call stamps\<close>

lemma index_unique:
  assumes "c < Y" "c' < Y" "r * Y + c = r' * Y + (c'::nat)"
  shows "r = r' \<and> c = c'"
proof -
  have "(r * Y + c) div Y = r" "(r' * Y + c') div Y = r'" using assms(1,2) by simp_all
  then have "r = r'" using assms(3) by simp
  then show ?thesis using assms(3) by simp
qed

lemma pixel_channels: "p\<lparr>red := red c, green := green c, blue := blue (c::ppm_pixel)\<rparr> = c"
  by (cases p, cases c) simp

lemma pixel_copy_writes:
  assumes ok: "same_frame X Y im" and rc: "r0 < X" "c0 < Y" and v: "v = f r0 c0"
  shows "writes (same_frame X Y) (pcell Y) (in_image X Y) f (\<lambda>r c. r = r0 \<and> c = c0) im
     (pixel_copy im (r0 * Y + c0) v)"
proof -
  have k: "r0 * Y + c0 < length (data im)"
    using ok rc by (simp add: same_frame_def index_in_image)
  have "pcell Y (im\<lparr>data := (data im)[r0 * Y + c0 := v]\<rparr>) r c =
      (if r = r0 \<and> c = c0 then f r c else pcell Y im r c)" if "r < X" "c < Y" for r c
  proof (cases "r * Y + c = r0 * Y + c0")
    case True
    with index_unique [OF that(2) rc(2) True] k v show ?thesis by (simp add: pcell_def)
  next
    case False
    then have "\<not> (r = r0 \<and> c = c0)" by auto
    with False show ?thesis by (auto simp: pcell_def)
  qed
  then show ?thesis
    using k ok by (simp add: writes_def pixel_copy_def pixel_channels same_frame_def)
qed

lemma update_image_writes:
  assumes ok: "same_frame X Y im" and fit: "x0 + x contour \<le> X" "y0 + y contour \<le> Y"
    and tile: "\<And>a b. a < x contour \<Longrightarrow> b < y contour \<Longrightarrow>
        x contour * a + b < length (data contour) \<and>
        f (x0 + a) (y0 + b) = data contour ! (x contour * a + b)"
  shows "writes (same_frame X Y) (pcell Y) (in_image X Y) f
     (\<lambda>r c. x0 \<le> r \<and> r < x0 + x contour \<and> y0 \<le> c \<and> c < y0 + y contour) im
     (update_image im contour x0 y0)"
proof -
  let ?W = "writes (same_frame X Y) (pcell Y) (in_image X Y) f"
  have inner: "?W (\<lambda>r c. \<exists>j. 0 \<le> j \<and> j < y contour \<and> r = x0 + i \<and> c = y0 + j) s1
      (for_range 0 (y contour) (\<lambda>j im. and_then (pixel_at contour (x contour * i + j))
           (\<lambda>c. pixel_copy im ((x0 + i) * y im + y0 + j) c)) s1)"
    if i: "0 \<le> i" "i < x contour" and s1: "same_frame X Y s1" for i s1
  proof (rule writes_loop [where ok = "same_frame X Y", OF s1])
    fix j s2 assume j: "0 \<le> j" "j < y contour" and s2: "same_frame X Y s2"
    have "pixel_at contour (x contour * i + j) = Inr (f (x0 + i) (y0 + j))"
      using tile [OF i(2) j(2)] by (simp add: pixel_at_def)
    moreover have "y s2 = Y" using s2 by (simp add: same_frame_def)
    ultimately show "?W (\<lambda>r c. r = x0 + i \<and> c = y0 + j) s2
        (and_then (pixel_at contour (x contour * i + j)) (\<lambda>c. pixel_copy s2 ((x0 + i) * y s2 + y0 + j) c))"
      using pixel_copy_writes [OF s2, of "x0 + i" "y0 + j" _ f] i j fit by (simp add: add.assoc)
  qed simp
  have "?W (\<lambda>r c. \<exists>i. 0 \<le> i \<and> i < x contour \<and> (\<exists>j. 0 \<le> j \<and> j < y contour \<and> r = x0 + i \<and> c = y0 + j)) im
      (update_image im contour x0 y0)"
    unfolding update_image_def
    by (rule writes_loop [where ok = "same_frame X Y", OF ok]) (simp, rule inner)
  then show ?thesis
  proof (rule writes_cong)
    fix r c
    show "(\<exists>i. 0 \<le> i \<and> i < x contour \<and> (\<exists>j. 0 \<le> j \<and> j < y contour \<and> r = x0 + i \<and> c = y0 + j)) =
          (x0 \<le> r \<and> r < x0 + x contour \<and> y0 \<le> c \<and> c < y0 + y contour)"
    proof
      assume "x0 \<le> r \<and> r < x0 + x contour \<and> y0 \<le> c \<and> c < y0 + y contour"
      then have "r - x0 < x contour \<and> c - y0 < y contour \<and> r = x0 + (r - x0) \<and> c = y0 + (c - y0)" by auto
      then show "\<exists>i. 0 \<le> i \<and> i < x contour \<and> (\<exists>j. 0 \<le> j \<and> j < y contour \<and> r = x0 + i \<and> c = y0 + j)"
        by blast
    qed auto
  qed
qed

lemma binary_grid_cell:
  assumes "wf_grid p q g" "binary_grid g" "r \<le> p" "c \<le> q"
  shows "g ! r ! c \<in> {0, 1}"
proof -
  have "g ! r \<in> set g" using assms(1,3) by (simp add: wf_grid_def)
  moreover have "g ! r ! c \<in> set (g ! r)" using assms(1,3,4) by (simp add: wf_grid_def)
  ultimately show ?thesis using assms(2) by (auto simp: binary_grid_def)
qed

lemma config_index_ok:
  assumes g: "wf_grid p q g" "binary_grid g" and ij: "i < p" "j < q"
  shows "\<exists>k. config_index g i j = Inr k \<and> unat k = config_value g i j \<and> unat k \<le> 15"
proof -
  have get: "grid_get g r c = Inr (g ! r ! c)" if "r \<le> p" "c \<le> q" for r c
    using g(1) that by (simp add: grid_get_def wf_grid_def)
  have cells: "g ! i ! j \<in> {0, 1}" "g ! i ! (j + 1) \<in> {0, 1}"
    "g ! (i + 1) ! (j + 1) \<in> {0, 1}" "g ! (i + 1) ! j \<in> {0, 1}"
    using ij binary_grid_cell [OF g, of i j] binary_grid_cell [OF g, of i "j + 1"]
      binary_grid_cell [OF g, of "i + 1" "j + 1"] binary_grid_cell [OF g, of "i + 1" j]
    by simp_all
  have "config_index g i j = Inr (of_nat (config_value g i j))"
    using ij by (simp add: config_index_def get config_value_def)
  moreover have "unat (of_nat (config_value g i j) :: uchar) = config_value g i j"
    and "config_value g i j \<le> 15"
    using config_bound [OF cells] by (simp_all add: config_value_def)
  ultimately show ?thesis by simp
qed

lemma step_cell:
  "(i * STEP \<le> r \<and> r < i * STEP + STEP) = (r div STEP = i)"
  by (auto simp: STEP_def)

lemma march_writes:
  assumes ok: "same_frame (x img) (y img) img"
    and g: "wf_grid (x img div STEP) (y img div STEP) g" "binary_grid g"
    and tiles: "tile_table_ok contour_map" and t: "t < N"
  shows "writes (same_frame (x img) (y img)) (pcell (y img)) (in_image (x img) (y img))
     (stamp_value contour_map g)
     (\<lambda>r c. part_start t (x img div STEP) N \<le> r div STEP \<and> r div STEP < part_end t (x img div STEP) N \<and>
            c div STEP < y img div STEP) img
     (march img g contour_map t N)"
proof -
  let ?X = "x img" and ?Y = "y img"
  let ?p = "?X div STEP" and ?q = "?Y div STEP"
  let ?a = "part_start t ?p N" and ?b = "part_end t ?p N"
  let ?W = "writes (same_frame ?X ?Y) (pcell ?Y) (in_image ?X ?Y) (stamp_value contour_map g)"
  have N0: "N \<noteq> 0" using t by simp
  have bp: "?b \<le> ?p" by (rule part_end_le [OF t])
  have cell: "?W (\<lambda>r c. i * STEP \<le> r \<and> r < i * STEP + STEP \<and> j * STEP \<le> c \<and> c < j * STEP + STEP) s
      (and_then (config_index g i j) (\<lambda>k. and_then (contour_at contour_map k)
         (\<lambda>contour. update_image s contour (i * STEP) (j * STEP))))"
    if i: "?a \<le> i" "i < ?b" and j: "j < ?q" and s: "same_frame ?X ?Y s" for i j s
  proof -
    from config_index_ok [OF g _ j, of i] i bp obtain k where
      k: "config_index g i j = Inr k" "unat k = config_value g i j" "unat k \<le> 15" by auto
    let ?tile = "contour_map ! unat k"
    have kl: "unat k < length contour_map"
      using k(3) tiles by (simp add: tile_table_ok_def CONTOUR_CONFIG_COUNT_def)
    then have tile: "x ?tile = STEP" "y ?tile = STEP" "length (data ?tile) = STEP * STEP"
      using tiles nth_mem [OF kl] by (auto simp: tile_table_ok_def)
    have look: "contour_at contour_map k = Inr ?tile" using kl by (simp add: contour_at_def)
    have "i < ?p" using i bp by simp
    then have fit: "i * STEP + x ?tile \<le> ?X" "j * STEP + y ?tile \<le> ?Y"
      using j by (simp_all add: tile STEP_def) 
    have "?W (\<lambda>r c. i * STEP \<le> r \<and> r < i * STEP + x ?tile \<and> j * STEP \<le> c \<and> c < j * STEP + y ?tile) s
        (update_image s ?tile (i * STEP) (j * STEP))"
    proof (rule update_image_writes [OF s fit])
      fix a b assume ab: "a < x ?tile" "b < y ?tile"
      then have ab': "a < STEP" "b < STEP" by (simp_all add: tile)
      then have "x ?tile * a + b < length (data ?tile)"
        using index_in_image [of a STEP b STEP] by (simp add: tile mult.commute)
      moreover have "(i * STEP + a) div STEP = i" "(i * STEP + a) mod STEP = a"
        "(j * STEP + b) div STEP = j" "(j * STEP + b) mod STEP = b"
        using ab' by simp_all
      then have "stamp_value contour_map g (i * STEP + a) (j * STEP + b) = data ?tile ! (x ?tile * a + b)"
        by (simp add: stamp_value_def k(2) [symmetric] tile)
      ultimately show "x ?tile * a + b < length (data ?tile) \<and>
        stamp_value contour_map g (i * STEP + a) (j * STEP + b) = data ?tile ! (x ?tile * a + b)" by simp
    qed
    then show ?thesis by (simp add: k(1) look tile)
  qed
  have row: "?W (\<lambda>r c. \<exists>j. 0 \<le> j \<and> j < ?q \<and> (i * STEP \<le> r \<and> r < i * STEP + STEP \<and> j * STEP \<le> c \<and> c < j * STEP + STEP)) s
      (for_range 0 ?q (\<lambda>j im. and_then (config_index g i j) (\<lambda>k. and_then (contour_at contour_map k)
         (\<lambda>contour. update_image im contour (i * STEP) (j * STEP)))) s)"
    if i: "?a \<le> i" "i < ?b" and s: "same_frame ?X ?Y s" for i s
    by (rule writes_loop [where ok = "same_frame ?X ?Y", OF s]) (simp, rule cell [OF i])
  have "?W (\<lambda>r c. \<exists>i. ?a \<le> i \<and> i < ?b \<and> (\<exists>j. 0 \<le> j \<and> j < ?q \<and>
        (i * STEP \<le> r \<and> r < i * STEP + STEP \<and> j * STEP \<le> c \<and> c < j * STEP + STEP))) img
      (march img g contour_map t N)"
    unfolding march_def Let_def if_not_P [OF N0]
    by (rule writes_loop [where ok = "same_frame ?X ?Y", OF ok part_start_le_end]) (rule row)
  then show ?thesis
    by (rule writes_cong) (auto simp: step_cell)
qed

subsection \<open>Buffers are determined by their cells\<close>

lemma image_ext:
  assumes a: "same_frame X Y a" and b: "same_frame X Y b"
    and eq: "\<And>r c. r < X \<Longrightarrow> c < Y \<Longrightarrow> data a ! (r * Y + c) = data b ! (r * Y + c)"
  shows "a = (b :: ppm_image)"
proof -
  have "data a = data b"
  proof (rule nth_equalityI)
    show "length (data a) = length (data b)" using a b by (simp add: same_frame_def)
  next
    fix k assume "k < length (data a)"
    then have k: "k < X * Y" using a by (simp add: same_frame_def)
    then have Y: "0 < Y" by (cases "Y = 0") simp_all
    have "k div Y < X" using k Y by (simp add: less_mult_imp_div_less mult.commute)
    from eq [OF this, of "k mod Y"] Y show "data a ! k = data b ! k" by simp
  qed
  then show ?thesis using a b by (simp add: same_frame_def)
qed

lemma grid_ext:
  assumes g: "wf_grid p q g" and h: "wf_grid p q h"
    and eq: "\<And>r c. r \<le> p \<Longrightarrow> c \<le> q \<Longrightarrow> g ! r ! c = h ! r ! c"
  shows "g = h"
proof (rule nth_equalityI)
  show "length g = length h" using g h by (simp add: wf_grid_def)
next
  fix r assume "r < length g"
  then have r: "r \<le> p" using g by (simp add: wf_grid_def)
  show "g ! r = h ! r"
  proof (rule nth_equalityI)
    show "length (g ! r) = length (h ! r)" using g h r by (simp add: wf_grid_def)
  next
    fix c assume "c < length (g ! r)"
    then have "c \<le> q" using g r by (simp add: wf_grid_def)
    then show "g ! r ! c = h ! r ! c" using eq r by simp
  qed
qed

lemma sampled_wf: "wf_grid (x img div STEP) (y img div STEP) (sampled img)"
  by (simp add: wf_grid_def sampled_def less_Suc_eq_le del: upt_Suc)

lemma sampled_cell:
  "r \<le> x img div STEP \<Longrightarrow> c \<le> y img div STEP \<Longrightarrow> sampled img ! r ! c = sample_value img r c"
  by (simp add: sampled_def less_Suc_eq_le del: upt_Suc)

lemma sampled_binary: "binary_grid (sampled img)"
  using threshold_cases by (auto simp: binary_grid_def sampled_def sample_value_def simp del: upt_Suc)

lemma is_rescaled_unique: "is_rescaled bicubic src w \<Longrightarrow> is_rescaled bicubic src w' \<Longrightarrow> w = w'"
  unfolding is_rescaled_def by (rule image_ext [of RESCALE_X RESCALE_Y]) simp_all

lemma is_marched_unique: "is_marched contour_map w out \<Longrightarrow> is_marched contour_map w out' \<Longrightarrow> out = out'"
  unfolding is_marched_def by (rule image_ext [of "x w" "y w"]) simp_all

lemma iterate_map: "iterate (map f xs) body s = iterate xs (\<lambda>i. body (f i)) s"
  by (induction xs arbitrary: s) (auto split: sum.splits)

lemma iterate_skip: "(\<And>i s. i \<in> set xs \<Longrightarrow> body i s = Inr s) \<Longrightarrow> iterate xs body s = Inr s"
  by (induction xs) auto

subsection \<open>Allocation and rescaling\<close>

lemma last_column_readable_wide:
  assumes "wf_image img" and "x img \<le> STEP * y img" and "b \<le> x img div STEP"
  shows "last_column_readable img a b"
  unfolding last_column_readable_def
proof
  fix i assume "i \<in> {a..<b}"
  then have "i < x img div STEP" using assms(3) by simp
  then have i: "i * STEP + STEP \<le> x img" by (simp add: STEP_def)
  then have pos: "0 < x img" by (simp add: STEP_def)
  have "i * STEP * y img + STEP * y img \<le> x img * y img"
    using mult_le_mono1 [OF i, of "y img"] by (simp add: algebra_simps)
  then show "i * STEP * y img + x img - 1 < length (data img)"
    using assms(1,2) pos by (simp add: wf_image_def)
qed

lemma allocate_grid_ok:
  assumes "malloc_ok env Grid_Rows" and "\<And>i. i \<le> x img div STEP \<Longrightarrow> malloc_ok env (Grid_Row i)"
  shows "\<exists>g. allocate_grid env img = Inr g \<and> wf_grid (x img div STEP) (y img div STEP) g"
proof -
  let ?p = "x img div STEP" and ?q = "y img div STEP"
  let ?P = "\<lambda>n (g :: grid). length g = n \<and> (\<forall>r < n. length (g ! r) = ?q + 1)"
  have "\<exists>g. for_range 0 (?p + 1) (\<lambda>i g.
                if \<not> malloc_ok env (Grid_Row i) then Inl out_of_memory
                else Inr (g @ [map (fresh_cell env i) [0..<?q + 1]])) [] = Inr g \<and> ?P (?p + 1) g"
  proof (rule for_range_rule [where P = ?P])
    fix i g assume i: "0 \<le> i" "i < ?p + 1" and P: "?P i g"
    have "malloc_ok env (Grid_Row i)" using assms(2) i by simp
    moreover have "?P (Suc i) (g @ [map (fresh_cell env i) [0..<?q + 1]])"
      using P by (auto simp: nth_append less_Suc_eq simp del: upt_Suc)
    ultimately show "\<exists>s'. (if \<not> malloc_ok env (Grid_Row i) then Inl out_of_memory
        else Inr (g @ [map (fresh_cell env i) [0..<?q + 1]])) = Inr s' \<and> ?P (Suc i) s'"
      by simp
  qed simp_all
  then show ?thesis using assms(1) by (auto simp: allocate_grid_def Let_def wf_grid_def less_Suc_eq_le)
qed

lemma rescale_image_writes:
  assumes ok: "same_frame X Y new_image" and t: "t < N"
  shows "writes (same_frame X Y) (pcell Y) (in_image X Y) (\<lambda>r c. bicubic img (r, X - 1) (c, Y - 1))
     (\<lambda>r c. part_start t X N \<le> r \<and> r < part_end t X N) new_image
     (rescale_image bicubic img new_image t N)"
proof -
  let ?f = "\<lambda>r c. bicubic img (r, X - 1) (c, Y - 1)"
  let ?W = "writes (same_frame X Y) (pcell Y) (in_image X Y) ?f"
  have N0: "N \<noteq> 0" using t by simp
  have XY: "x new_image = X" "y new_image = Y" using ok by (simp_all add: same_frame_def)
  have e: "min (part_end t X N) X = part_end t X N" using part_end_le [OF t, of X] by simp
  have row: "?W (\<lambda>r c. \<exists>j. 0 \<le> j \<and> j < Y \<and> r = i \<and> c = j) s
      (for_range 0 Y (\<lambda>j im. let u = (i, x im - 1); v = (j, y im - 1); sample = bicubic img u v
          in pixel_copy im (i * y im + j) sample) s)"
    if i: "part_start t X N \<le> i" "i < part_end t X N" and s: "same_frame X Y s" for i s
  proof (rule writes_loop [where ok = "same_frame X Y", OF s])
    fix j s1 assume j: "0 \<le> j" "j < Y" and s1: "same_frame X Y s1"
    have "i < X" using i part_end_le [OF t, of X] by simp
    then show "?W (\<lambda>r c. r = i \<and> c = j) s1
        (let u = (i, x s1 - 1); v = (j, y s1 - 1); sample = bicubic img u v
         in pixel_copy s1 (i * y s1 + j) sample)"
      using pixel_copy_writes [OF s1, of i j _ ?f] j s1 by (simp add: same_frame_def Let_def)
  qed simp
  have "?W (\<lambda>r c. \<exists>i. part_start t X N \<le> i \<and> i < part_end t X N \<and> (\<exists>j. 0 \<le> j \<and> j < Y \<and> r = i \<and> c = j))
      new_image (rescale_image bicubic img new_image t N)"
    unfolding rescale_image_def if_not_P [OF N0] XY e
    by (rule writes_loop [where ok = "same_frame X Y", OF ok part_start_le_end]) (rule row)
  then show ?thesis by (rule writes_cong) auto
qed

subsection \<open>The phases of the workers\<close>

lemma covered:
  assumes "0 < N" and "N dvd e" and "i < e"
  shows "\<exists>t. 0 \<le> t \<and> t < N \<and> part_start t e N \<le> i \<and> i < part_end t e N"
proof -
  have "i < N * (e div N)" using assms by simp
  from part_range_owner [OF this] show ?thesis
    by (auto simp: part_range_def)
qed

lemma covered_only:
  assumes "t < N" and "i < part_end t e N"
  shows "i < e"
  using assms part_end_le [of t N e] by simp

text \<open>A step that replaces the working image in the store.\<close>

lemma store_writes:
  assumes m: "frame_mem G IM b X Y m" and b: "b < length IM"
    and w: "writes (same_frame X Y) (pcell Y) (in_image X Y) f R (images m ! b) res"
  shows "writes (frame_mem G IM b X Y) (mcell Y b) (in_image X Y) f R m
     (and_then res (\<lambda>v. Inr (store b v m)))"
proof -
  from w obtain v where v: "res = Inr v" "same_frame X Y v"
    "\<forall>r c. in_image X Y r c \<longrightarrow> pcell Y v r c = (if R r c then f r c else pcell Y (images m ! b) r c)"
    unfolding writes_def by blast
  have "frame_mem G IM b X Y (store b v m)"
    using m b v(2) by (simp add: frame_mem_def store_def)
  moreover have "images (store b v m) ! b = v" using m b by (simp add: frame_mem_def store_def)
  ultimately show ?thesis using v unfolding writes_def by simp
qed

lemma load_working: "frame_mem G IM b X Y m \<Longrightarrow> b < length IM \<Longrightarrow> load m b = Inr (images m ! b)"
  by (simp add: frame_mem_def load_def)

lemma frame_mem_eq:
  assumes "frame_mem G IM b X Y m" and "b < length IM"
  shows "m = \<lparr>images = IM[b := images m ! b], grid_cells = G\<rparr>"
proof -
  have "images m = IM[b := images m ! b]"
  proof (rule nth_equalityI)
    show "length (images m) = length (IM[b := images m ! b])" using assms by (simp add: frame_mem_def)
  next
    fix a assume "a < length (images m)"
    then show "images m ! a = IM[b := images m ! b] ! a"
      using assms by (cases "a = b") (simp_all add: frame_mem_def)
  qed
  then show ?thesis using assms(1) by (simp add: frame_mem_def)
qed

text \<open>The rescaling phase.\<close>

lemma rescale_phase:
  assumes N: "0 < N" "N dvd RESCALE_X" and ts: "set ts = {0..<N}"
    and fresh: "same_frame RESCALE_X RESCALE_Y new_image"
  shows "\<exists>w. iterate (map (worker 0 1 N) ts) (apeleaza_rescale env) \<lparr>images = [src, new_image], grid_cells = G\<rparr>
        = Inr \<lparr>images = [src, w], grid_cells = G\<rparr> \<and> is_rescaled (sample_bicubic env) src w"
proof -
  let ?X = RESCALE_X and ?Y = RESCALE_Y
  let ?IM = "[src, new_image]"
  let ?m0 = "\<lparr>images = ?IM, grid_cells = G\<rparr>"
  let ?f = "\<lambda>r c. sample_bicubic env src (r, ?X - 1) (c, ?Y - 1)"
  have m0: "frame_mem G ?IM 1 ?X ?Y ?m0" using fresh by (simp add: frame_mem_def)
  have "writes (frame_mem G ?IM 1 ?X ?Y) (mcell ?Y 1) (in_image ?X ?Y) ?f
      (\<lambda>r c. \<exists>t \<in> set ts. part_start t ?X N \<le> r \<and> r < part_end t ?X N) ?m0
      (iterate ts (\<lambda>t. apeleaza_rescale env (worker 0 1 N t)) ?m0)"
  proof (rule writes_iterate [where ok = "frame_mem G ?IM 1 ?X ?Y", OF m0])
    fix t m assume "t \<in> set ts" and m: "frame_mem G ?IM 1 ?X ?Y m"
    then have t: "0 \<le> t" "t < N" using ts by simp_all
    have src: "load m 0 = Inr src" using m by (simp add: frame_mem_def load_def)
    have w: "same_frame ?X ?Y (images m ! 1)" using m by (simp add: frame_mem_def)
    have "apeleaza_rescale env (worker 0 1 N t) m =
        and_then (rescale_image (sample_bicubic env) src (images m ! 1) t N) (\<lambda>v. Inr (store 1 v m))"
      using load_working [OF m] by (simp add: apeleaza_rescale_def worker_def src)
    then show "writes (frame_mem G ?IM 1 ?X ?Y) (mcell ?Y 1) (in_image ?X ?Y) ?f
        (\<lambda>r c. part_start t ?X N \<le> r \<and> r < part_end t ?X N) m (apeleaza_rescale env (worker 0 1 N t) m)"
      using store_writes [OF m _ rescale_image_writes [OF w t(2)]] by simp
  qed
  then obtain m1 where m1: "iterate ts (\<lambda>t. apeleaza_rescale env (worker 0 1 N t)) ?m0 = Inr m1"
    "frame_mem G ?IM 1 ?X ?Y m1"
    "\<forall>r c. in_image ?X ?Y r c \<longrightarrow> mcell ?Y 1 m1 r c =
       (if \<exists>t \<in> set ts. part_start t ?X N \<le> r \<and> r < part_end t ?X N then ?f r c
        else mcell ?Y 1 ?m0 r c)"
    unfolding writes_def by blast
  have "is_rescaled (sample_bicubic env) src (images m1 ! 1)"
    unfolding is_rescaled_def
  proof (intro conjI allI impI)
    show "same_frame ?X ?Y (images m1 ! 1)" using m1(2) by (simp add: frame_mem_def)
  next
    fix r c assume rc: "r < ?X" "c < ?Y"
    from covered [OF N rc(1)] have "\<exists>t \<in> set ts. part_start t ?X N \<le> r \<and> r < part_end t ?X N"
      using ts by auto
    with m1(3) rc show "data (images m1 ! 1) ! (r * ?Y + c) = ?f r c" by (simp add: pcell_def)
  qed
  moreover have "m1 = \<lparr>images = [src, images m1 ! 1], grid_cells = G\<rparr>"
    using frame_mem_eq [OF m1(2)] by simp
  ultimately show ?thesis using m1(1) by (auto simp: iterate_map)
qed

text \<open>The sampling phase.\<close>

lemma sample_phase:
  assumes N: "0 < N" "N dvd x w div STEP" "N dvd y w div STEP" and ts: "set ts = {0..<N}"
    and w: "wf_image w" "0 < x w" "last_column_readable w 0 (x w div STEP)"
    and b: "b < length IM" "IM ! b = w"
    and g: "wf_grid (x w div STEP) (y w div STEP) g"
  shows "iterate (map (worker a b N) ts) apeleaza_sample \<lparr>images = IM, grid_cells = g\<rparr>
        = Inr \<lparr>images = IM, grid_cells = sampled w\<rparr>"
proof -
  let ?p = "x w div STEP" and ?q = "y w div STEP"
  let ?ok = "\<lambda>m :: memory. images m = IM \<and> wf_grid ?p ?q (grid_cells m)"
  let ?m0 = "\<lparr>images = IM, grid_cells = g\<rparr>"
  have "writes ?ok (\<lambda>m :: memory. gcell (grid_cells m)) (in_grid ?p ?q) (sample_value w)
      (\<lambda>r c. \<exists>t \<in> set ts. sampled_by ?p ?q t N r c) ?m0
      (iterate ts (\<lambda>t. apeleaza_sample (worker a b N t)) ?m0)"
  proof (rule writes_iterate [where ok = ?ok])
    fix t and m :: memory assume "t \<in> set ts" and m: "?ok m"
    then have t: "0 \<le> t" "t < N" using ts by simp_all
    have rd: "i * STEP * y w + x w - 1 < length (data w)"
      if "part_start t ?p N \<le> i" "i < part_end t ?p N" for i
      using w(3) that covered_only [OF t(2) that(2)] by (simp add: last_column_readable_def)
    from sample_grid_writes [OF w(1) _ t(2) w(2) rd, of "grid_cells m"] m
    obtain g' where g': "sample_grid w (grid_cells m) t N = Inr g'" "wf_grid ?p ?q g'"
      "\<forall>r c. in_grid ?p ?q r c \<longrightarrow> g' ! r ! c =
         (if sampled_by ?p ?q t N r c then sample_value w r c else grid_cells m ! r ! c)"
      unfolding writes_def by blast
    have "apeleaza_sample (worker a b N t) m = Inr (m\<lparr>grid_cells := g'\<rparr>)"
      using m b g'(1) by (simp add: apeleaza_sample_def worker_def load_def)
    then show "writes ?ok (\<lambda>m :: memory. gcell (grid_cells m)) (in_grid ?p ?q) (sample_value w)
        (sampled_by ?p ?q t N) m (apeleaza_sample (worker a b N t) m)"
      using m g'(2,3) unfolding writes_def by simp
  qed (simp_all add: g)
  then obtain m2 where run: "iterate ts (\<lambda>t. apeleaza_sample (worker a b N t)) ?m0 = Inr m2"
    and ok2: "?ok m2"
    and cells: "\<forall>r c. in_grid ?p ?q r c \<longrightarrow> gcell (grid_cells m2) r c =
       (if \<exists>t \<in> set ts. sampled_by ?p ?q t N r c then sample_value w r c
        else gcell (grid_cells ?m0) r c)"
    unfolding writes_def by blast
  have m2: "images m2 = IM" "wf_grid ?p ?q (grid_cells m2)" using ok2 by simp_all
  have all: "\<exists>t \<in> set ts. sampled_by ?p ?q t N r c" if rc: "r \<le> ?p" "c \<le> ?q" for r c
  proof (cases "r < ?p")
    case True
    from covered [OF N(1,2) True] rc(2) show ?thesis using ts by (auto simp: sampled_by_def)
  next
    case False
    then have r: "r = ?p" using rc(1) by simp
    show ?thesis
    proof (cases "c < ?q")
      case True
      from covered [OF N(1,3) True] r show ?thesis using ts by (auto simp: sampled_by_def)
    next
      case False
      then have "sampled_by ?p ?q 0 N r c" using r rc(2) by (simp add: sampled_by_def)
      then show ?thesis using N(1) ts by auto
    qed
  qed
  have "grid_cells m2 = sampled w"
    using m2(2) sampled_wf
  proof (rule grid_ext)
    fix r c assume "r \<le> ?p" "c \<le> ?q"
    then show "grid_cells m2 ! r ! c = sampled w ! r ! c"
      using cells all [of r c] by (simp add: sampled_cell)
  qed
  then have "m2 = \<lparr>images = IM, grid_cells = sampled w\<rparr>" using m2(1) by simp
  then show ?thesis using run by (simp add: iterate_map)
qed

text \<open>The marching phase.\<close>

lemma march_phase:
  assumes N: "0 < N" "N dvd x w div STEP" and ts: "set ts = {0..<N}"
    and w: "wf_image w" and b: "b < length IM" "IM ! b = w"
    and tiles: "tile_table_ok contour_map"
  shows "\<exists>out. iterate (map (worker a b N) ts) (apeleaza_march contour_map)
          \<lparr>images = IM, grid_cells = sampled w\<rparr>
        = Inr \<lparr>images = IM[b := out], grid_cells = sampled w\<rparr> \<and> is_marched contour_map w out"
proof -
  let ?X = "x w" and ?Y = "y w"
  let ?p = "?X div STEP" and ?q = "?Y div STEP"
  let ?G = "sampled w"
  let ?m0 = "\<lparr>images = IM, grid_cells = ?G\<rparr>"
  let ?ok = "frame_mem ?G IM b ?X ?Y"
  have m0: "?ok ?m0" using w b by (simp add: frame_mem_def same_frame_def wf_image_def)
  have "writes ?ok (mcell ?Y b) (in_image ?X ?Y) (stamp_value contour_map ?G)
      (\<lambda>r c. \<exists>t \<in> set ts. part_start t ?p N \<le> r div STEP \<and> r div STEP < part_end t ?p N \<and> c div STEP < ?q) ?m0
      (iterate ts (\<lambda>t. apeleaza_march contour_map (worker a b N t)) ?m0)"
  proof (rule writes_iterate [where ok = ?ok, OF m0])
    fix t m assume "t \<in> set ts" and m: "?ok m"
    then have t: "0 \<le> t" "t < N" using ts by simp_all
    let ?im = "images m ! b"
    have im: "same_frame ?X ?Y ?im" "x ?im = ?X" "y ?im = ?Y" "grid_cells m = ?G"
      using m by (simp_all add: frame_mem_def same_frame_def)
    have "apeleaza_march contour_map (worker a b N t) m =
        and_then (march ?im ?G contour_map t N) (\<lambda>v. Inr (store b v m))"
      using load_working [OF m b(1)] by (simp add: apeleaza_march_def worker_def im)
    moreover have "writes (same_frame ?X ?Y) (pcell ?Y) (in_image ?X ?Y) (stamp_value contour_map ?G)
        (\<lambda>r c. part_start t ?p N \<le> r div STEP \<and> r div STEP < part_end t ?p N \<and> c div STEP < ?q)
        ?im (march ?im ?G contour_map t N)"
      using march_writes [of ?im ?G contour_map t N] im sampled_wf [of w] sampled_binary tiles t(2)
      by simp
    ultimately show "writes ?ok (mcell ?Y b) (in_image ?X ?Y) (stamp_value contour_map ?G)
        (\<lambda>r c. part_start t ?p N \<le> r div STEP \<and> r div STEP < part_end t ?p N \<and> c div STEP < ?q) m
        (apeleaza_march contour_map (worker a b N t) m)"
      using store_writes [OF m b(1)] by simp
  qed
  then obtain m3 where m3: "iterate ts (\<lambda>t. apeleaza_march contour_map (worker a b N t)) ?m0 = Inr m3"
    "?ok m3"
    "\<forall>r c. in_image ?X ?Y r c \<longrightarrow> mcell ?Y b m3 r c =
       (if \<exists>t \<in> set ts. part_start t ?p N \<le> r div STEP \<and> r div STEP < part_end t ?p N \<and> c div STEP < ?q
        then stamp_value contour_map ?G r c else mcell ?Y b ?m0 r c)"
    unfolding writes_def by blast
  have region: "(\<exists>t \<in> set ts. part_start t ?p N \<le> r div STEP \<and> r div STEP < part_end t ?p N \<and> c div STEP < ?q)
      = (r div STEP < ?p \<and> c div STEP < ?q)" for r c
  proof
    assume "\<exists>t \<in> set ts. part_start t ?p N \<le> r div STEP \<and> r div STEP < part_end t ?p N \<and> c div STEP < ?q"
    then obtain t where "t < N" "r div STEP < part_end t ?p N" "c div STEP < ?q"
      using ts by auto
    then show "r div STEP < ?p \<and> c div STEP < ?q" using covered_only [of t N "r div STEP" ?p] by simp
  next
    assume rc: "r div STEP < ?p \<and> c div STEP < ?q"
    with covered [OF N, of "r div STEP"] obtain t where
      "t < N" "part_start t ?p N \<le> r div STEP" "r div STEP < part_end t ?p N" by blast
    moreover from this(1) have "t \<in> set ts" using ts by simp
    ultimately show "\<exists>t \<in> set ts. part_start t ?p N \<le> r div STEP \<and> r div STEP < part_end t ?p N \<and> c div STEP < ?q"
      using rc by blast
  qed
  have "is_marched contour_map w (images m3 ! b)"
    unfolding is_marched_def
  proof (intro conjI allI impI)
    show "same_frame ?X ?Y (images m3 ! b)" using m3(2) by (simp add: frame_mem_def)
  next
    fix r c assume "r < ?X" "c < ?Y"
    then show "data (images m3 ! b) ! (r * ?Y + c) =
        (if r div STEP < ?p \<and> c div STEP < ?q then stamp_value contour_map ?G r c else data w ! (r * ?Y + c))"
      using m3(3) [unfolded region] b by (simp add: pcell_def)
  qed
  moreover have "m3 = \<lparr>images = IM[b := images m3 ! b], grid_cells = ?G\<rparr>"
    by (rule frame_mem_eq [OF m3(2) b(1)])
  ultimately show ?thesis using m3(1) by (auto simp: iterate_map)
qed

subsection \<open>The whole run\<close>

lemma is_working_unique: "is_working env src w \<Longrightarrow> is_working env src w' \<Longrightarrow> w = w'"
  by (auto simp: is_working_def dest: is_rescaled_unique split: if_splits)

lemma run_workers_fits:
  assumes N: "0 < N" "N dvd x src div STEP" "N dvd y src div STEP" and ts: "set ts = {0..<N}"
    and src: "wf_image src" "0 < x src" "last_column_readable src 0 (x src div STEP)"
    and tiles: "tile_table_ok contour_map"
    and g: "wf_grid (x src div STEP) (y src div STEP) g"
  shows "\<exists>out. run_workers env contour_map (map (worker 0 0 N) ts) \<lparr>images = [src], grid_cells = g\<rparr>
        = Inr \<lparr>images = [out], grid_cells = sampled src\<rparr> \<and> is_marched contour_map src out"
proof -
  let ?ws = "map (worker 0 0 N) ts"
  have 1: "iterate ?ws (apeleaza_rescale env) \<lparr>images = [src], grid_cells = g\<rparr>
      = Inr \<lparr>images = [src], grid_cells = g\<rparr>"
    by (rule iterate_skip) (auto simp: apeleaza_rescale_def worker_def)
  have 2: "iterate ?ws apeleaza_sample \<lparr>images = [src], grid_cells = g\<rparr>
      = Inr \<lparr>images = [src], grid_cells = sampled src\<rparr>"
    by (rule sample_phase [OF N ts src _ _ g]) simp_all
  from march_phase [OF N(1,2) ts src(1) _ _ tiles, of 0 "[src]" 0]
  obtain out where 3: "iterate ?ws (apeleaza_march contour_map) \<lparr>images = [src], grid_cells = sampled src\<rparr>
      = Inr \<lparr>images = [out], grid_cells = sampled src\<rparr>" and out: "is_marched contour_map src out"
    by auto
  have "run_workers env contour_map ?ws \<lparr>images = [src], grid_cells = g\<rparr>
      = Inr \<lparr>images = [out], grid_cells = sampled src\<rparr>"
    unfolding run_workers_def by (simp only: 1 2 3 and_then_Inr)
  then show ?thesis using out by blast
qed

lemma rescaled_facts:
  assumes "is_rescaled bicubic src w"
  shows "wf_image w" "x w = RESCALE_X" "y w = RESCALE_Y" "0 < x w"
    "last_column_readable w 0 (x w div STEP)"
proof -
  show w: "wf_image w" and xy: "x w = RESCALE_X" "y w = RESCALE_Y"
    using assms by (simp_all add: is_rescaled_def same_frame_def wf_image_def)
  show "0 < x w" by (simp add: xy RESCALE_X_def)
  show "last_column_readable w 0 (x w div STEP)"
    by (rule last_column_readable_wide [OF w]) (simp_all add: xy RESCALE_X_def RESCALE_Y_def STEP_def)
qed

lemma run_workers_rescale:
  assumes N: "0 < N" "N dvd RESCALE_X div STEP" "N dvd RESCALE_Y div STEP" "N dvd RESCALE_X"
    and ts: "set ts = {0..<N}"
    and fresh: "same_frame RESCALE_X RESCALE_Y new_image"
    and tiles: "tile_table_ok contour_map"
    and g: "wf_grid (RESCALE_X div STEP) (RESCALE_Y div STEP) g"
  shows "\<exists>w out. run_workers env contour_map (map (worker 0 1 N) ts) \<lparr>images = [src, new_image], grid_cells = g\<rparr>
        = Inr \<lparr>images = [src, out], grid_cells = sampled w\<rparr> \<and>
        is_rescaled (sample_bicubic env) src w \<and> is_marched contour_map w out"
proof -
  let ?ws = "map (worker 0 1 N) ts"
  from rescale_phase [OF N(1,4) ts fresh, of env src g] obtain w where
    1: "iterate ?ws (apeleaza_rescale env) \<lparr>images = [src, new_image], grid_cells = g\<rparr>
      = Inr \<lparr>images = [src, w], grid_cells = g\<rparr>" and w: "is_rescaled (sample_bicubic env) src w"
    by blast
  note wf = rescaled_facts [OF w]
  have 2: "iterate ?ws apeleaza_sample \<lparr>images = [src, w], grid_cells = g\<rparr>
      = Inr \<lparr>images = [src, w], grid_cells = sampled w\<rparr>"
    by (rule sample_phase [OF N(1) _ _ ts wf(1,4,5)]) (simp_all add: wf N g)
  from march_phase [OF N(1) _ ts wf(1) _ _ tiles, of 1 "[src, w]" 0]
  obtain out where 3: "iterate ?ws (apeleaza_march contour_map) \<lparr>images = [src, w], grid_cells = sampled w\<rparr>
      = Inr \<lparr>images = [src, out], grid_cells = sampled w\<rparr>" and out: "is_marched contour_map w out"
    using N wf by auto
  have "run_workers env contour_map ?ws \<lparr>images = [src, new_image], grid_cells = g\<rparr>
      = Inr \<lparr>images = [src, out], grid_cells = sampled w\<rparr>"
    unfolding run_workers_def by (simp only: 1 2 3 and_then_Inr)
  then show ?thesis using w out by blast
qed

lemma prepare_ok:
  assumes rd: "read_ppm env (argv ! 1) = Inr src" and cm: "init_contour_map env = Inr contour_map"
    and al: "all_allocated env"
  shows "\<exists>g. wf_grid (working_x src div STEP) (working_y src div STEP) g \<and>
     prepare env argv = Inr \<lparr>workers = nat (atoi (argv ! 3)), image_at = 0,
        scaled_image_at = (if fits src then 0 else 1), contour_tiles = contour_map,
        shared = \<lparr>images = (if fits src then [src] else [src, fresh_image env]), grid_cells = g\<rparr>\<rparr>"
proof (cases "fits src")
  case True
  from allocate_grid_ok [of env src] al obtain g where
    "allocate_grid env src = Inr g" "wf_grid (x src div STEP) (y src div STEP) g"
    by (auto simp: all_allocated_def)
  then show ?thesis using True rd cm
    by (auto simp: prepare_def Let_def fits_def working_x_def working_y_def)
next
  case False
  have fr: "allocate_rescale env = Inr (fresh_image env)"
    using al by (simp add: allocate_rescale_def all_allocated_def fresh_image_def)
  from allocate_grid_ok [of env "fresh_image env"] al obtain g where
    "allocate_grid env (fresh_image env) = Inr g"
    "wf_grid (RESCALE_X div STEP) (RESCALE_Y div STEP) g"
    by (auto simp: all_allocated_def fresh_image_def)
  then show ?thesis using False rd cm fr
    by (auto simp: prepare_def Let_def fits_def working_x_def working_y_def)
qed

lemma main_result:
  assumes rd: "read_ppm env inp = Inr src" and src: "wf_image src" "0 < x src"
    and rb: "fits src \<longrightarrow> last_column_readable src 0 (x src div STEP)"
    and cm: "init_contour_map env = Inr contour_map" "tile_table_ok contour_map"
    and al: "all_allocated env"
    and N: "divides_extents (nat (atoi n)) src"
  shows "\<exists>w out. main env (prog # inp # outp # n # rest) = Inr (outp, out) \<and>
     is_working env src w \<and> is_marched contour_map w out"
proof -
  let ?argv = "prog # inp # outp # n # rest"
  let ?N = "nat (atoi n)"
  from prepare_ok [of env ?argv src contour_map] rd cm(1) al obtain g where
    g: "wf_grid (working_x src div STEP) (working_y src div STEP) g" and
    pr: "prepare env ?argv = Inr \<lparr>workers = ?N, image_at = 0,
        scaled_image_at = (if fits src then 0 else 1), contour_tiles = contour_map,
        shared = \<lparr>images = (if fits src then [src] else [src, fresh_image env]), grid_cells = g\<rparr>\<rparr>"
    by auto
  have ws: "map (\<lambda>i. \<lparr>arg_thread_id = i, arg_image = a, arg_scaled_image = b, arg_N = ?N\<rparr>) [0..<?N]
      = map (worker a b ?N) [0..<?N]" for a b
    by (simp add: worker_def)
  show ?thesis
  proof (cases "fits src")
    case True
    from run_workers_fits [of ?N src "[0..<?N]" contour_map g env] N src rb cm(2) g True
    obtain out where "run_workers env contour_map (map (worker 0 0 ?N) [0..<?N]) \<lparr>images = [src], grid_cells = g\<rparr>
        = Inr \<lparr>images = [out], grid_cells = sampled src\<rparr>" "is_marched contour_map src out"
      by (auto simp: divides_extents_def working_x_def working_y_def)
    then show ?thesis using True pr
      by (auto simp: main_def main_body_def Let_def ws load_def is_working_def)
  next
    case False
    have "same_frame RESCALE_X RESCALE_Y (fresh_image env)"
      by (simp add: same_frame_def fresh_image_def)
    from run_workers_rescale [OF _ _ _ _ _ this cm(2), of ?N "[0..<?N]" g env src] N g False
    obtain w out where "run_workers env contour_map (map (worker 0 1 ?N) [0..<?N])
          \<lparr>images = [src, fresh_image env], grid_cells = g\<rparr>
        = Inr \<lparr>images = [src, out], grid_cells = sampled w\<rparr>"
      "is_rescaled (sample_bicubic env) src w" "is_marched contour_map w out"
      by (auto simp: divides_extents_def working_x_def working_y_def)
    then show ?thesis using False pr
      by (auto simp: main_def main_body_def Let_def ws load_def is_working_def)
  qed
qed

subsection \<open>The all-white image\<close>

lemma sampled_white: "sampled (flat_image 16 16 white) = replicate 3 (replicate 3 0)"
  by code_simp

lemma white16_facts:
  "wf_image (flat_image 16 16 white)" "0 < x (flat_image 16 16 white)"
  "fits (flat_image 16 16 white)"
  "last_column_readable (flat_image 16 16 white) 0 (x (flat_image 16 16 white) div STEP)"
  "x (flat_image 16 16 white) div STEP = 2" "y (flat_image 16 16 white) div STEP = 2"
proof -
  show w: "wf_image (flat_image 16 16 white)" by (simp add: wf_image_def flat_image_def)
  show "last_column_readable (flat_image 16 16 white) 0 (x (flat_image 16 16 white) div STEP)"
    by (rule last_column_readable_wide [OF w]) (simp_all add: flat_image_def STEP_def)
qed (simp_all add: flat_image_def fits_def RESCALE_X_def RESCALE_Y_def STEP_def)

subsection \<open>The order of the workers within a phase\<close>

text \<open>
  The order in which the workers take their steps within a phase does not matter: any
  list that holds every thread id below \<open>N\<close> gives the memory that the order of creation
  gives.
\<close>

lemma run_workers_order_fits:
  assumes "0 < N" "N dvd x src div STEP" "N dvd y src div STEP" and "set ts = {0..<N}"
    and "wf_image src" "0 < x src" "last_column_readable src 0 (x src div STEP)"
    and "tile_table_ok contour_map"
    and "wf_grid (x src div STEP) (y src div STEP) g"
  shows "run_workers env contour_map (map (worker 0 0 N) ts) \<lparr>images = [src], grid_cells = g\<rparr>
       = run_workers env contour_map (map (worker 0 0 N) [0..<N]) \<lparr>images = [src], grid_cells = g\<rparr>"
proof -
  from run_workers_fits [OF assms, of env] obtain out where
    1: "run_workers env contour_map (map (worker 0 0 N) ts) \<lparr>images = [src], grid_cells = g\<rparr>
        = Inr \<lparr>images = [out], grid_cells = sampled src\<rparr>" "is_marched contour_map src out"
    by blast
  have "set [0..<N] = {0..<N}" by simp
  from run_workers_fits [OF assms(1-3) this assms(5-9), of env] obtain out' where
    2: "run_workers env contour_map (map (worker 0 0 N) [0..<N]) \<lparr>images = [src], grid_cells = g\<rparr>
        = Inr \<lparr>images = [out'], grid_cells = sampled src\<rparr>" "is_marched contour_map src out'"
    by blast
  from 1(2) 2(2) have "out = out'" by (rule is_marched_unique)
  then show ?thesis using 1(1) 2(1) by simp
qed

lemma run_workers_order_rescale:
  assumes "0 < N" "N dvd RESCALE_X div STEP" "N dvd RESCALE_Y div STEP" "N dvd RESCALE_X"
    and "set ts = {0..<N}"
    and "same_frame RESCALE_X RESCALE_Y new_image"
    and "tile_table_ok contour_map"
    and "wf_grid (RESCALE_X div STEP) (RESCALE_Y div STEP) g"
  shows "run_workers env contour_map (map (worker 0 1 N) ts) \<lparr>images = [src, new_image], grid_cells = g\<rparr>
       = run_workers env contour_map (map (worker 0 1 N) [0..<N]) \<lparr>images = [src, new_image], grid_cells = g\<rparr>"
proof -
  from run_workers_rescale [OF assms, of env src] obtain w out where
    1: "run_workers env contour_map (map (worker 0 1 N) ts) \<lparr>images = [src, new_image], grid_cells = g\<rparr>
        = Inr \<lparr>images = [src, out], grid_cells = sampled w\<rparr>"
      "is_rescaled (sample_bicubic env) src w" "is_marched contour_map w out"
    by blast
  have "set [0..<N] = {0..<N}" by simp
  from run_workers_rescale [OF assms(1-4) this assms(6-8), of env src] obtain w' out' where
    2: "run_workers env contour_map (map (worker 0 1 N) [0..<N]) \<lparr>images = [src, new_image], grid_cells = g\<rparr>
        = Inr \<lparr>images = [src, out'], grid_cells = sampled w'\<rparr>"
      "is_rescaled (sample_bicubic env) src w'" "is_marched contour_map w' out'"
    by blast
  from 1(2) 2(2) have "w = w'" by (rule is_rescaled_unique)
  moreover from this 1(3) 2(3) have "out = out'" by (auto dest: is_marched_unique)
  ultimately show ?thesis using 1(1) 2(1) by simp
qed

subsection \<open>Sampling: the boundary cells\<close>

text \<open>
  What a worker's call stores in the cells of the last grid column and of the last grid
  row that it owns, and in the corner.
\<close>

lemma sample_grid_boundary:
  assumes "wf_image img" and "wf_grid (x img div STEP) (y img div STEP) g"
    and "thread_id < N" and "0 < x img"
    and "last_column_readable img (part_start thread_id (x img div STEP) N) (part_end thread_id (x img div STEP) N)"
  shows "\<exists>g'. sample_grid img g thread_id N = Inr g' \<and>
     (\<forall>i. part_start thread_id (x img div STEP) N \<le> i \<and> i < part_end thread_id (x img div STEP) N \<longrightarrow>
        g' ! i ! (y img div STEP) = threshold (data img ! (i * STEP * y img + x img - 1))) \<and>
     (\<forall>j. part_start thread_id (y img div STEP) N \<le> j \<and> j < part_end thread_id (y img div STEP) N \<longrightarrow>
        g' ! (x img div STEP) ! j = threshold (data img ! ((x img - 1) * y img + j * STEP))) \<and>
     g' ! (x img div STEP) ! (y img div STEP) = 0"
proof -
  let ?p = "x img div STEP" and ?q = "y img div STEP"
  have "writes (wf_grid ?p ?q) gcell (in_grid ?p ?q) (sample_value img) (sampled_by ?p ?q thread_id N) g
     (sample_grid img g thread_id N)"
    using assms(5) by (intro sample_grid_writes assms) (simp add: last_column_readable_def)
  then obtain g' where g': "sample_grid img g thread_id N = Inr g'"
    "\<forall>r c. in_grid ?p ?q r c \<longrightarrow> g' ! r ! c = (if sampled_by ?p ?q thread_id N r c then sample_value img r c else g ! r ! c)"
    unfolding writes_def by blast
  have "g' ! i ! ?q = threshold (data img ! (i * STEP * y img + x img - 1))"
    if "part_start thread_id ?p N \<le> i \<and> i < part_end thread_id ?p N" for i
  proof -
    have "i < ?p" using that part_end_le [OF assms(3), of ?p] by simp
    moreover have "sampled_by ?p ?q thread_id N i ?q" using that by (simp add: sampled_by_def)
    ultimately show ?thesis using g'(2) by (simp add: sample_value_def)
  qed
  moreover have "g' ! ?p ! j = threshold (data img ! ((x img - 1) * y img + j * STEP))"
    if "part_start thread_id ?q N \<le> j \<and> j < part_end thread_id ?q N" for j
  proof -
    have "j < ?q" using that part_end_le [OF assms(3), of ?q] by simp
    moreover have "sampled_by ?p ?q thread_id N ?p j" using that by (simp add: sampled_by_def)
    ultimately show ?thesis using g'(2) by (simp add: sample_value_def)
  qed
  moreover have "g' ! ?p ! ?q = 0"
    using g'(2) by (simp add: sampled_by_def sample_value_def)
  ultimately show ?thesis using g'(1) by blast
qed

subsection \<open>Allocation failures that are detected\<close>

lemma iterate_fails:
  assumes "\<And>k s. k \<in> set ks \<Longrightarrow> body k s = Inl e \<or> (\<exists>s'. body k s = Inr s')"
    and "i \<in> set ks" and "\<And>s. body i s = Inl e"
  shows "iterate ks body s = Inl e"
  using assms
proof (induction ks arbitrary: s)
  case Nil
  then show ?case by simp
next
  case (Cons k ks)
  show ?case
  proof (cases "body k s")
    case (Inl e')
    then show ?thesis using Cons.prems(1) [of k s] by simp
  next
    case (Inr s')
    have "k \<noteq> i" using Inr Cons.prems(3) [of s] by auto
    then have "i \<in> set ks" using Cons.prems(2) by simp
    then have "iterate ks body s' = Inl e"
      using Cons.IH [of s'] Cons.prems(1,3) by simp
    then show ?thesis using Inr by simp
  qed
qed

lemma contour_map_failure_exits:
  "\<not> malloc_ok env Contour_Map \<Longrightarrow> init_contour_map env = Inl out_of_memory"
  by (simp add: init_contour_map_def)

lemma rescale_struct_failure_exits:
  "\<not> malloc_ok env Rescale_Struct \<Longrightarrow> allocate_rescale env = Inl out_of_memory"
  by (simp add: allocate_rescale_def)

lemma grid_rows_failure_exits:
  "\<not> malloc_ok env Grid_Rows \<Longrightarrow> allocate_grid env img = Inl out_of_memory"
  by (simp add: allocate_grid_def)

lemma grid_row_failure_exits:
  assumes "i \<le> x img div STEP" and "\<not> malloc_ok env (Grid_Row i)"
  shows "allocate_grid env img = Inl out_of_memory"
proof (cases "malloc_ok env Grid_Rows")
  case True
  have "iterate [0..<x img div STEP + 1] (\<lambda>i g.
      if \<not> malloc_ok env (Grid_Row i) then Inl out_of_memory
      else Inr (g @ [map (fresh_cell env i) [0..<y img div STEP + 1]])) [] = Inl out_of_memory"
    by (rule iterate_fails [where i = i]) (use assms in auto)
  then show ?thesis using True by (simp add: allocate_grid_def for_range_def)
next
  case False
  then show ?thesis by (rule grid_rows_failure_exits)
qed

section \<open>The properties\<close>

text \<open>
  C1. Let \<open>p = x div STEP\<close> and \<open>q = y div STEP\<close>. For a worker \<open>thread_id < N\<close> and
  a sample point \<open>(i, j)\<close> with \<open>i\<close> in the worker's row range and \<open>j < q\<close>,
  \<open>sample_grid\<close> returns a grid whose cell \<open>(i, j)\<close> is 1 if the truncated average of
  the three channels of the pixel at offset \<open>i * STEP * y + j * STEP\<close> is at most 200, and
  0 otherwise. The call returns when the image buffer holds \<open>x * y\<close> pixels, the grid
  has \<open>(p + 1) \<times> (q + 1)\<close> cells and the reads of the last-column loop stay inside the
  buffer.
\<close>

theorem sample_grid_interior:
  assumes "wf_image img" and "wf_grid (x img div STEP) (y img div STEP) g"
    and "thread_id < N"
    and "last_column_readable img (part_start thread_id (x img div STEP) N) (part_end thread_id (x img div STEP) N)"
    and "part_start thread_id (x img div STEP) N \<le> i" and "i < part_end thread_id (x img div STEP) N"
    and "j < y img div STEP"
  shows "\<exists>g'. sample_grid img g thread_id N = Inr g' \<and>
     g' ! i ! j =
       (let px = data img ! (i * STEP * y img + j * STEP)
        in if (unat (red px) + unat (green px) + unat (blue px)) div 3 \<le> 200 then 1 else 0)"
proof -
  let ?p = "x img div STEP" and ?q = "y img div STEP"
  have ip: "i < ?p" using assms(3,6) part_end_le [of thread_id N ?p] by simp
  then have pos: "0 < x img" by (cases "x img = 0") simp_all
  have "writes (wf_grid ?p ?q) gcell (in_grid ?p ?q) (sample_value img) (sampled_by ?p ?q thread_id N) g
     (sample_grid img g thread_id N)"
    using assms(4) by (intro sample_grid_writes assms pos) (simp add: last_column_readable_def)
  then obtain g' where g': "sample_grid img g thread_id N = Inr g'"
    "\<forall>r c. in_grid ?p ?q r c \<longrightarrow> g' ! r ! c = (if sampled_by ?p ?q thread_id N r c then sample_value img r c else g ! r ! c)"
    unfolding writes_def by blast
  have "sampled_by ?p ?q thread_id N i j" using assms(5-7) by (simp add: sampled_by_def)
  then have "g' ! i ! j = sample_value img i j" using g'(2) ip assms(7) by simp
  also have "\<dots> = threshold (data img ! (i * STEP * y img + j * STEP))"
    using ip assms(7) by (simp add: sample_value_def)
  finally show ?thesis using g'(1) by (simp add: threshold_avg Let_def)
qed

theorem sample_grid_interior_witness:
  "wf_image (flat_image 8 8 black) \<and> wf_grid (8 div STEP) (8 div STEP) (flat_grid 1 1 7) \<and>
   last_column_readable (flat_image 8 8 black) 0 1 \<and>
   (\<exists>g'. sample_grid (flat_image 8 8 black) (flat_grid 1 1 7) 0 1 = Inr g' \<and> g' ! 0 ! 0 = 1)"
proof -
  have 1: "wf_image (flat_image 8 8 black)" by (simp add: wf_image_def flat_image_def)
  have 2: "wf_grid (8 div STEP) (8 div STEP) (flat_grid 1 1 7)"
    by (simp add: wf_grid_def flat_grid_def STEP_def less_Suc_eq_le nth_Cons')
  have 3: "last_column_readable (flat_image 8 8 black) 0 1"
    by (simp add: last_column_readable_def flat_image_def STEP_def)
  from sample_grid_interior [of "flat_image 8 8 black" "flat_grid 1 1 7" 0 1 0 0] 1 2 3
  show ?thesis
    by (simp add: flat_image_def black_def part_start_def part_end_def STEP_def)
qed

text \<open>
  C2. For a worker \<open>thread_id < N\<close>, a row \<open>i\<close> of its range and a column \<open>j < q\<close>,
  \<open>march\<close> computes \<open>k = 8 * grid[i][j] + 4 * grid[i][j+1] + 2 * grid[i+1][j+1] +
  1 * grid[i+1][j]\<close> and returns an image of the same size in which the pixel
  \<open>(i * STEP + a, j * STEP + b)\<close> is the pixel \<open>(a, b)\<close> of tile \<open>k\<close>, unchanged, for
  every \<open>a, b < STEP\<close>. The grid holds only 0 and 1, and the tiles are \<open>STEP\<close> by
  \<open>STEP\<close>, as the data model has them.
\<close>

theorem march_stamps_tile:
  assumes "wf_image img" and "wf_grid (x img div STEP) (y img div STEP) g" and "binary_grid g"
    and "tile_table_ok contour_map" and "thread_id < N"
    and "part_start thread_id (x img div STEP) N \<le> i" and "i < part_end thread_id (x img div STEP) N"
    and "j < y img div STEP"
  shows "\<exists>k out. config_index g i j = Inr k \<and>
     unat k = 8 * unat (g ! i ! j) + 4 * unat (g ! i ! (j + 1)) + 2 * unat (g ! (i + 1) ! (j + 1))
                + 1 * unat (g ! (i + 1) ! j) \<and>
     march img g contour_map thread_id N = Inr out \<and>
     x out = x img \<and> y out = y img \<and> length (data out) = length (data img) \<and>
     (\<forall>a < STEP. \<forall>b < STEP.
        data out ! ((i * STEP + a) * y img + (j * STEP + b)) = data (contour_map ! unat k) ! (STEP * a + b))"
proof -
  let ?p = "x img div STEP" and ?q = "y img div STEP"
  have ip: "i < ?p" using assms(5,7) part_end_le [of thread_id N ?p] by simp
  from config_index_ok [OF assms(2,3) ip assms(8)] obtain k where
    k: "config_index g i j = Inr k" "unat k = config_value g i j" by blast
  have frame: "same_frame (x img) (y img) img" using assms(1) by (simp add: same_frame_def wf_image_def)
  from march_writes [OF frame assms(2,3,4,5)] obtain out where
    out: "march img g contour_map thread_id N = Inr out" "same_frame (x img) (y img) out"
      "\<forall>r c. in_image (x img) (y img) r c \<longrightarrow> pcell (y img) out r c =
         (if part_start thread_id ?p N \<le> r div STEP \<and> r div STEP < part_end thread_id ?p N \<and> c div STEP < ?q
          then stamp_value contour_map g r c else pcell (y img) img r c)"
    unfolding writes_def by blast
  have "data out ! ((i * STEP + a) * y img + (j * STEP + b)) = data (contour_map ! unat k) ! (STEP * a + b)"
    if ab: "a < STEP" "b < STEP" for a b
  proof -
    have dm: "(i * STEP + a) div STEP = i" "(i * STEP + a) mod STEP = a"
      "(j * STEP + b) div STEP = j" "(j * STEP + b) mod STEP = b"
      using ab by simp_all
    have "i * STEP + a < x img" "j * STEP + b < y img"
      using ip assms(8) ab by (simp_all add: STEP_def)
    then have "pcell (y img) out (i * STEP + a) (j * STEP + b) = stamp_value contour_map g (i * STEP + a) (j * STEP + b)"
      using out(3) dm assms(6,7,8) by simp
    then show ?thesis using ab by (simp add: pcell_def stamp_value_def dm k(2))
  qed
  then show ?thesis
    using k out(1,2) assms(1) by (auto simp: same_frame_def wf_image_def config_value_def)
qed

theorem march_stamps_tile_witness:
  "wf_image (flat_image 8 8 white) \<and> wf_grid (8 div STEP) (8 div STEP) [[0, 1], [1, 1]] \<and>
   binary_grid [[0, 1], [1, 1]] \<and> tile_table_ok (replicate 16 (flat_image 8 8 black)) \<and>
   (\<exists>out. config_index [[0, 1], [1, 1]] 0 0 = Inr 7 \<and>
      march (flat_image 8 8 white) [[0, 1], [1, 1]] (replicate 16 (flat_image 8 8 black)) 0 1 = Inr out \<and>
      data out ! 9 = black)"
proof -
  have 1: "wf_image (flat_image 8 8 white)" by (simp add: wf_image_def flat_image_def)
  have 2: "wf_grid (8 div STEP) (8 div STEP) [[0, 1], [1, 1]]"
    by (simp add: wf_grid_def STEP_def less_Suc_eq_le nth_Cons')
  have 3: "binary_grid [[0, 1], [1, 1]]" by (simp add: binary_grid_def)
  have 4: "tile_table_ok (replicate 16 (flat_image 8 8 black))"
    by (simp add: tile_table_ok_def CONTOUR_CONFIG_COUNT_def flat_image_def STEP_def)
  have 5: "config_index [[0, 1], [1, 1]] 0 0 = Inr 7" by code_simp
  from march_stamps_tile [of "flat_image 8 8 white" "[[0, 1], [1, 1]]" "replicate 16 (flat_image 8 8 black)" 0 1 0 0]
    1 2 3 4
  obtain k out where o: "config_index [[0, 1], [1, 1]] 0 0 = Inr k"
    "march (flat_image 8 8 white) [[0, 1], [1, 1]] (replicate 16 (flat_image 8 8 black)) 0 1 = Inr out"
    "\<forall>a < STEP. \<forall>b < STEP. data out ! ((0 * STEP + a) * y (flat_image 8 8 white) + (0 * STEP + b))
        = data (replicate 16 (flat_image 8 8 black) ! unat k) ! (STEP * a + b)"
    by (auto simp: flat_image_def part_start_def part_end_def STEP_def)
  from o(1) 5 have k: "k = 7" by simp
  from o(3) [rule_format, of 1 1] have "data out ! 9 = black"
    by (simp add: k flat_image_def STEP_def)
  then show ?thesis using 1 2 3 4 5 o(2) by simp
qed

text \<open>
  C3, at an image with 8 rows of 16 pixels (\<open>p = 1\<close>, \<open>q = 2\<close>) that is white except
  for the black pixel at offset 7: the last pixel of row 0, at offset \<open>y - 1\<close>, is white
  and thresholds to 0, but \<open>sample_grid\<close> reads offset \<open>x - 1 = 7\<close> and sets the cell
  \<open>(0, q)\<close> of the last grid column to 1. At a white image with 80 rows of 8 pixels
  the read for the last grid column leaves the buffer.
\<close>

theorem sample_grid_last_column_nonsquare:
  "data wide ! (0 * STEP * y wide + (y wide - 1)) = white \<and> threshold white = 0 \<and>
   data wide ! (0 * STEP * y wide + x wide - 1) = black \<and> threshold black = 1 \<and>
   sample_grid wide (flat_grid 1 2 0) 0 1 = Inr [[0, 0, 1], [0, 0, 0]] \<and>
   sample_grid (flat_image 80 8 white) (flat_grid 10 1 0) 0 1 = Inl Out_Of_Bounds"
  by code_simp

text \<open>
  C4. For an extent \<open>e\<close> and \<open>N \<ge> 1\<close> workers, worker \<open>t\<close> gets the half-open range
  from \<open>t * (e div N)\<close> to \<open>(t + 1) * (e div N)\<close>. The ranges of different workers are
  disjoint, the ranges of the workers \<open>t < N\<close> cover exactly the indices below
  \<open>N * (e div N)\<close>; when \<open>N\<close> divides \<open>e\<close> every index below \<open>e\<close> has exactly one
  worker, and otherwise the indices from \<open>N * (e div N)\<close> up to \<open>e\<close> (there is at least
  one) have none.
\<close>

theorem partition_ranges:
  assumes "0 < N"
  shows "(\<forall>t u. t \<noteq> u \<longrightarrow> part_range t e N \<inter> part_range u e N = {}) \<and>
         (\<Union>t<N. part_range t e N) = {0..<N * (e div N)} \<and>
         (N dvd e \<longrightarrow> (\<forall>i<e. \<exists>!t. t < N \<and> i \<in> part_range t e N)) \<and>
         (\<not> N dvd e \<longrightarrow> N * (e div N) < e \<and>
            (\<forall>i. N * (e div N) \<le> i \<longrightarrow> i < e \<longrightarrow> (\<forall>t<N. i \<notin> part_range t e N)))"
proof (intro conjI allI impI)
  fix t u :: nat assume "t \<noteq> u"
  then show "part_range t e N \<inter> part_range u e N = {}"
    using part_range_unique [of _ t e N u] by blast
next
  show "(\<Union>t<N. part_range t e N) = {0..<N * (e div N)}" by (rule part_range_union)
next
  fix i assume "N dvd e" "i < e"
  then have "i < N * (e div N)" by simp
  from part_range_owner [OF this] show "\<exists>!t. t < N \<and> i \<in> part_range t e N"
    using part_range_unique by blast
next
  assume "\<not> N dvd e"
  then have "e mod N \<noteq> 0" by (simp add: dvd_eq_mod_eq_0)
  moreover have "N * (e div N) + e mod N = e" by simp
  ultimately show "N * (e div N) < e" by linarith
next
  fix i t assume "N * (e div N) \<le> i" "t < N"
  then have "i \<notin> (\<Union>t<N. part_range t e N)" unfolding part_range_union by simp
  then show "i \<notin> part_range t e N" using \<open>t < N\<close> by blast
qed

theorem partition_ranges_witness:
  "(0::nat) < 2 \<and> \<not> (2::nat) dvd 5 \<and> (2::nat) * (5 div 2) < 5 \<and>
   part_range 0 5 2 = {0, 1} \<and> part_range 1 5 2 = {2, 3} \<and> 4 \<notin> part_range 0 5 2 \<and> 4 \<notin> part_range 1 5 2"
  using partition_ranges [of 2 5]
  by (auto simp: part_range_def part_start_def part_end_def)

text \<open>
  C5. When the preparation of \<open>main\<close> returns, the working image is at the address of
  the source image exactly if \<open>x \<le> RESCALE_X\<close> and \<open>y \<le> RESCALE_Y\<close>. In that case the
  store holds the source image only, and the rescaling phase of every worker leaves the
  memory as it is; otherwise the working image is the second, newly allocated image.
\<close>

theorem working_image_alias:
  assumes "4 \<le> length argv" and "read_ppm env (argv ! 1) = Inr img" and "prepare env argv = Inr pr"
  shows "images (shared pr) ! image_at pr = img \<and>
     (scaled_image_at pr = image_at pr \<longleftrightarrow> x img \<le> RESCALE_X \<and> y img \<le> RESCALE_Y) \<and>
     (x img \<le> RESCALE_X \<and> y img \<le> RESCALE_Y \<longrightarrow>
        images (shared pr) = [img] \<and>
        (\<forall>im m. arg_image im = image_at pr \<and> arg_scaled_image im = scaled_image_at pr \<longrightarrow>
           apeleaza_rescale env im m = Inr m)) \<and>
     (\<not> (x img \<le> RESCALE_X \<and> y img \<le> RESCALE_Y) \<longrightarrow>
        (\<exists>new_image. allocate_rescale env = Inr new_image \<and> images (shared pr) = [img, new_image]))"
  using assms
  by (auto simp: prepare_def Let_def and_then_def apeleaza_rescale_def split: sum.splits if_splits)

theorem working_image_alias_witness:
  "4 \<le> length [''tema1'', ''in.ppm'', ''out.ppm'', ''1''] \<and>
   read_ppm small_env ([''tema1'', ''in.ppm'', ''out.ppm'', ''1''] ! 1) = Inr (flat_image 8 8 white) \<and>
   prepare small_env [''tema1'', ''in.ppm'', ''out.ppm'', ''1''] =
     Inr \<lparr>workers = 1, image_at = 0, scaled_image_at = 0,
          contour_tiles = replicate 16 (flat_image 8 8 black),
          shared = \<lparr>images = [flat_image 8 8 white], grid_cells = [[7, 7], [7, 7]]\<rparr>\<rparr> \<and>
   x (flat_image 8 8 white) \<le> RESCALE_X \<and> y (flat_image 8 8 white) \<le> RESCALE_Y \<and>
   apeleaza_rescale small_env \<lparr>arg_thread_id = 0, arg_image = 0, arg_scaled_image = 0, arg_N = 1\<rparr>
     \<lparr>images = [flat_image 8 8 white], grid_cells = [[7, 7], [7, 7]]\<rparr>
     = Inr \<lparr>images = [flat_image 8 8 white], grid_cells = [[7, 7], [7, 7]]\<rparr>"
proof -
  have 1: "read_ppm small_env ([''tema1'', ''in.ppm'', ''out.ppm'', ''1''] ! 1) = Inr (flat_image 8 8 white)"
    by (simp add: small_env_def)
  have 2: "prepare small_env [''tema1'', ''in.ppm'', ''out.ppm'', ''1''] =
     Inr \<lparr>workers = 1, image_at = 0, scaled_image_at = 0,
          contour_tiles = replicate 16 (flat_image 8 8 black),
          shared = \<lparr>images = [flat_image 8 8 white], grid_cells = [[7, 7], [7, 7]]\<rparr>\<rparr>"
    by code_simp
  have 3: "x (flat_image 8 8 white) \<le> RESCALE_X \<and> y (flat_image 8 8 white) \<le> RESCALE_Y"
    by (simp add: flat_image_def RESCALE_X_def RESCALE_Y_def)
  from working_image_alias [OF _ 1 2] 3
  have "apeleaza_rescale small_env \<lparr>arg_thread_id = 0, arg_image = 0, arg_scaled_image = 0, arg_N = 1\<rparr>
     \<lparr>images = [flat_image 8 8 white], grid_cells = [[7, 7], [7, 7]]\<rparr>
     = Inr \<lparr>images = [flat_image 8 8 white], grid_cells = [[7, 7], [7, 7]]\<rparr>"
    by simp
  then show ?thesis using 1 2 3 by simp
qed

text \<open>
  C6. Take a source image, a tile table of \<open>STEP\<close> by \<open>STEP\<close> tiles, and two worker
  counts \<open>n1\<close> and \<open>n2\<close>, each at least 1 and dividing the numbers of grid rows and
  columns of the working image (and \<open>RESCALE_X\<close> when the image is rescaled). With
  every allocation succeeding and the reads of the last-column loop inside the buffer,
  \<open>main\<close> returns with both counts, and hands the same image to \<^verbatim>\<open>write_ppm\<close>.
  Arguments after the worker count are ignored.
\<close>

theorem worker_count_invariance:
  assumes "read_ppm env inp = Inr src" and "wf_image src" and "0 < x src"
    and "fits src \<longrightarrow> last_column_readable src 0 (x src div STEP)"
    and "init_contour_map env = Inr contour_map" and "tile_table_ok contour_map"
    and "all_allocated env"
    and "divides_extents (nat (atoi n1)) src" and "divides_extents (nat (atoi n2)) src"
  shows "\<exists>out. main env (prog # inp # outp # n1 # rest) = Inr (outp, out) \<and>
               main env (prog # inp # outp # n2 # rest) = Inr (outp, out)"
proof -
  from main_result [OF assms(1-7) assms(8)] obtain w1 out1 where
    1: "main env (prog # inp # outp # n1 # rest) = Inr (outp, out1)" "is_working env src w1" "is_marched contour_map w1 out1"
    by blast
  from main_result [OF assms(1-7) assms(9)] obtain w2 out2 where
    2: "main env (prog # inp # outp # n2 # rest) = Inr (outp, out2)" "is_working env src w2" "is_marched contour_map w2 out2"
    by blast
  have "w1 = w2" using 1(2) 2(2) by (rule is_working_unique)
  then have "out1 = out2" using 1(3) 2(3) by (auto dest: is_marched_unique)
  then show ?thesis using 1(1) 2(1) by simp
qed

theorem worker_count_invariance_witness:
  "read_ppm white_env ''in.ppm'' = Inr (flat_image 16 16 white) \<and> wf_image (flat_image 16 16 white) \<and>
   fits (flat_image 16 16 white) \<and> last_column_readable (flat_image 16 16 white) 0 2 \<and>
   init_contour_map white_env = Inr (replicate 16 (flat_image 8 8 black)) \<and>
   tile_table_ok (replicate 16 (flat_image 8 8 black)) \<and> all_allocated white_env \<and>
   divides_extents (nat (atoi ''1'')) (flat_image 16 16 white) \<and>
   divides_extents (nat (atoi ''2'')) (flat_image 16 16 white) \<and>
   (\<exists>out. main white_env [''tema1'', ''in.ppm'', ''out.ppm'', ''1''] = Inr (''out.ppm'', out) \<and>
          main white_env [''tema1'', ''in.ppm'', ''out.ppm'', ''2''] = Inr (''out.ppm'', out))"
proof -
  have 1: "read_ppm white_env ''in.ppm'' = Inr (flat_image 16 16 white)"
    by (simp add: white_env_def)
  have 4: "last_column_readable (flat_image 16 16 white) 0 2"
    using white16_facts(4) by (simp add: white16_facts(5))
  have 5: "init_contour_map white_env = Inr (replicate 16 (flat_image 8 8 black))" by code_simp
  have 6: "tile_table_ok (replicate 16 (flat_image 8 8 black))"
    by (simp add: tile_table_ok_def CONTOUR_CONFIG_COUNT_def flat_image_def STEP_def)
  have 7: "all_allocated white_env" by (simp add: all_allocated_def white_env_def small_env_def)
  have a: "nat (atoi ''1'') = 1" "nat (atoi ''2'') = 2" by code_simp+
  have 8: "divides_extents (nat (atoi ''1'')) (flat_image 16 16 white)"
    "divides_extents (nat (atoi ''2'')) (flat_image 16 16 white)"
    unfolding a by (simp_all add: divides_extents_def working_x_def working_y_def white16_facts)
  from worker_count_invariance [of white_env "''in.ppm''" "flat_image 16 16 white"
      "replicate 16 (flat_image 8 8 black)" "''1''" "''2''" "''tema1''" "''out.ppm''" "[]"]
    1 white16_facts 5 6 7 8
  have "\<exists>out. main white_env [''tema1'', ''in.ppm'', ''out.ppm'', ''1''] = Inr (''out.ppm'', out) \<and>
          main white_env [''tema1'', ''in.ppm'', ''out.ppm'', ''2''] = Inr (''out.ppm'', out)"
    by simp
  then show ?thesis using 1 white16_facts(1,3) 4 5 6 7 8 by simp
qed

text \<open>
  C7. For the all-white image of 16 by 16 pixels and a worker count of 1 or 2, the
  sampling phase leaves the grid with all of its 3 by 3 entries 0, whatever it held
  before, and the image \<open>main\<close> writes has, at every pixel \<open>(r, c)\<close>, the pixel
  \<open>(r mod STEP, c mod STEP)\<close> of tile 0.
\<close>

theorem white_image_tiled_with_tile_zero:
  assumes "read_ppm env inp = Inr (flat_image 16 16 white)"
    and "init_contour_map env = Inr contour_map" and "tile_table_ok contour_map"
    and "all_allocated env" and "0 < nat (atoi n)" and "nat (atoi n) dvd 2"
    and "wf_grid 2 2 g"
  shows "iterate (map (worker 0 0 (nat (atoi n))) [0..<nat (atoi n)]) apeleaza_sample
           \<lparr>images = [flat_image 16 16 white], grid_cells = g\<rparr>
         = Inr \<lparr>images = [flat_image 16 16 white], grid_cells = replicate 3 (replicate 3 0)\<rparr> \<and>
     (\<exists>out. main env (prog # inp # outp # n # rest) = Inr (outp, out) \<and>
        x out = 16 \<and> y out = 16 \<and> length (data out) = 16 * 16 \<and>
        (\<forall>r < 16. \<forall>c < 16.
           data out ! (r * 16 + c) = data (contour_map ! 0) ! (STEP * (r mod STEP) + c mod STEP)))"
proof
  let ?w = "flat_image 16 16 white" and ?N = "nat (atoi n)"
  show "iterate (map (worker 0 0 ?N) [0..<?N]) apeleaza_sample \<lparr>images = [?w], grid_cells = g\<rparr>
         = Inr \<lparr>images = [?w], grid_cells = replicate 3 (replicate 3 0)\<rparr>"
    using sample_phase [of ?N ?w "[0..<?N]" 0 "[?w]" g 0] assms(5,6,7) white16_facts
    by (simp add: sampled_white)
  have "divides_extents ?N ?w"
    using assms(5,6) by (simp add: divides_extents_def working_x_def working_y_def white16_facts)
  from main_result [OF assms(1) white16_facts(1,2) _ assms(2,3,4) this, of prog outp rest] white16_facts(4)
  obtain out where out: "main env (prog # inp # outp # n # rest) = Inr (outp, out)" "is_marched contour_map ?w out"
    by (auto simp: is_working_def white16_facts)
  have xy: "x ?w = 16" "y ?w = 16" by (simp_all add: flat_image_def)
  have "data out ! (r * 16 + c) = data (contour_map ! 0) ! (STEP * (r mod STEP) + c mod STEP)"
    if rc: "r < 16" "c < 16" for r c
  proof -
    have d: "r div STEP < 2" "c div STEP < 2" using rc by (simp_all add: STEP_def)
    then have "config_value (replicate 3 (replicate 3 0)) (r div STEP) (c div STEP) = 0"
      by (simp add: config_value_def)
    then have "stamp_value contour_map (sampled ?w) r c = data (contour_map ! 0) ! (STEP * (r mod STEP) + c mod STEP)"
      by (simp add: stamp_value_def sampled_white)
    moreover have "(16::nat) div STEP = 2" by (simp add: STEP_def)
    ultimately show ?thesis
      using out(2) rc d by (simp add: is_marched_def xy)
  qed
  then show "\<exists>out. main env (prog # inp # outp # n # rest) = Inr (outp, out) \<and>
        x out = 16 \<and> y out = 16 \<and> length (data out) = 16 * 16 \<and>
        (\<forall>r < 16. \<forall>c < 16.
           data out ! (r * 16 + c) = data (contour_map ! 0) ! (STEP * (r mod STEP) + c mod STEP))"
    using out by (auto simp: is_marched_def same_frame_def xy)
qed

theorem white_image_tiled_with_tile_zero_witness:
  "read_ppm white_env ''in.ppm'' = Inr (flat_image 16 16 white) \<and>
   init_contour_map white_env = Inr (replicate 16 (flat_image 8 8 black)) \<and>
   tile_table_ok (replicate 16 (flat_image 8 8 black)) \<and> all_allocated white_env \<and>
   nat (atoi ''2'') = 2 \<and> wf_grid 2 2 (flat_grid 2 2 7) \<and>
   iterate (map (worker 0 0 2) [0..<2]) apeleaza_sample
       \<lparr>images = [flat_image 16 16 white], grid_cells = flat_grid 2 2 7\<rparr>
     = Inr \<lparr>images = [flat_image 16 16 white], grid_cells = replicate 3 (replicate 3 0)\<rparr> \<and>
   (\<exists>out. main white_env [''tema1'', ''in.ppm'', ''out.ppm'', ''2''] = Inr (''out.ppm'', out) \<and>
      data out ! (9 * 16 + 10) = data (replicate 16 (flat_image 8 8 black) ! 0) ! (STEP * (9 mod STEP) + 10 mod STEP))"
proof -
  have 1: "read_ppm white_env ''in.ppm'' = Inr (flat_image 16 16 white)"
    by (simp add: white_env_def)
  have 2: "init_contour_map white_env = Inr (replicate 16 (flat_image 8 8 black))" by code_simp
  have 3: "tile_table_ok (replicate 16 (flat_image 8 8 black))"
    by (simp add: tile_table_ok_def CONTOUR_CONFIG_COUNT_def flat_image_def STEP_def)
  have 4: "all_allocated white_env" by (simp add: all_allocated_def white_env_def small_env_def)
  have 5: "nat (atoi ''2'') = 2" by code_simp
  have 6: "wf_grid 2 2 (flat_grid 2 2 7)"
    by (simp add: wf_grid_def flat_grid_def less_Suc_eq_le)
  from white_image_tiled_with_tile_zero [OF 1 2 3 4 _ _ 6, of "''2''" "''tema1''" "''out.ppm''" "[]"]
  obtain out where s: "iterate (map (worker 0 0 2) [0..<2]) apeleaza_sample
       \<lparr>images = [flat_image 16 16 white], grid_cells = flat_grid 2 2 7\<rparr>
     = Inr \<lparr>images = [flat_image 16 16 white], grid_cells = replicate 3 (replicate 3 0)\<rparr>"
    and m: "main white_env [''tema1'', ''in.ppm'', ''out.ppm'', ''2''] = Inr (''out.ppm'', out)"
    and pix: "\<forall>r < 16. \<forall>c < 16. data out ! (r * 16 + c)
        = data (replicate 16 (flat_image 8 8 black) ! 0) ! (STEP * (r mod STEP) + c mod STEP)"
    unfolding 5 by auto
  have "data out ! (9 * 16 + 10) = data (replicate 16 (flat_image 8 8 black) ! 0) ! (STEP * (9 mod STEP) + 10 mod STEP)"
    using pix [rule_format, of 9 10] by simp
  then show ?thesis using 1 2 3 4 5 6 s m by blast
qed

text \<open>
  C8, when only the allocation of the pixel buffer of the rescaled image fails:
  \<open>allocate_rescale\<close> does not exit, it returns the image with the null buffer.
\<close>

theorem allocate_rescale_no_pixel_buffer:
  "\<not> malloc_ok no_pixel_buffer_env Rescale_Data \<and>
   allocate_rescale no_pixel_buffer_env = Inr \<lparr>x = RESCALE_X, y = RESCALE_Y, data = []\<rparr>"
  by (simp add: allocate_rescale_def no_pixel_buffer_env_def small_env_def)

text \<open>
  C9. With fewer than 3 arguments after the program name, \<open>main\<close> exits with status 1
  and the usage message, whatever the environment; with 3 or more it runs the rest of
  the program.
\<close>

theorem main_argument_check:
  "(length args < 3 \<longrightarrow>
      main env (prog # args) = Inl (Exit 1 (''Usage: ./tema1 <in_file> <out_file> <P>'' @ [CHR 0x0A]))) \<and>
   (3 \<le> length args \<longrightarrow> main env (prog # args) = main_body env (prog # args))"
  by (simp add: main_def usage_def)

theorem main_argument_check_witness:
  "length [''in.ppm'', ''out.ppm''] < 3 \<and>
   main small_env [''tema1'', ''in.ppm'', ''out.ppm''] = Inl (Exit 1 (''Usage: ./tema1 <in_file> <out_file> <P>'' @ [CHR 0x0A])) \<and>
   3 \<le> length [''in.ppm'', ''out.ppm'', ''1''] \<and>
   main small_env [''tema1'', ''in.ppm'', ''out.ppm'', ''1''] = Inr (''out.ppm'', flat_image 8 8 black)"
proof -
  have "main_body small_env [''tema1'', ''in.ppm'', ''out.ppm'', ''1''] = Inr (''out.ppm'', flat_image 8 8 black)"
    by code_simp
  then show ?thesis
    using main_argument_check [of "[''in.ppm'', ''out.ppm'']" small_env "''tema1''"]
      main_argument_check [of "[''in.ppm'', ''out.ppm'', ''1'']" small_env "''tema1''"]
    by simp
qed

text \<open>
  C10. A call of \<open>sample_grid\<close> that returns keeps the shape of the grid and leaves in
  every cell either its previous value or 0 or 1. Over a grid whose entries are all 0
  or 1, the index \<open>k\<close> that \<open>march\<close> computes for a cell is at most 15, so the lookup
  in a table of \<open>CONTOUR_CONFIG_COUNT\<close> tiles is inside the table.
\<close>

theorem sampler_writes_bits:
  "(sample_grid img g thread_id N = Inr g' \<longrightarrow>
      length g' = length g \<and>
      (\<forall>r < length g. length (g' ! r) = length (g ! r) \<and>
         (\<forall>c < length (g ! r). g' ! r ! c = g ! r ! c \<or> g' ! r ! c = 0 \<or> g' ! r ! c = 1))) \<and>
   (binary_grid g \<longrightarrow> config_index g i j = Inr k \<longrightarrow>
      unat k \<le> 15 \<and> unat k < CONTOUR_CONFIG_COUNT \<and>
      (length contour_map = CONTOUR_CONFIG_COUNT \<longrightarrow> contour_at contour_map k = Inr (contour_map ! unat k)))"
proof (intro conjI impI)
  assume "sample_grid img g thread_id N = Inr g'"
  from sample_grid_bits [OF this]
  show "length g' = length g"
    and "\<forall>r < length g. length (g' ! r) = length (g ! r) \<and>
         (\<forall>c < length (g ! r). g' ! r ! c = g ! r ! c \<or> g' ! r ! c = 0 \<or> g' ! r ! c = 1)"
    by (simp_all add: bits_written_def)
next
  assume b: "binary_grid g" and k: "config_index g i j = Inr k"
  have cell: "\<And>r c v. grid_get g r c = Inr v \<Longrightarrow> v \<in> {0, 1}"
    using b by (auto simp: grid_get_def binary_grid_def split: if_splits) (metis nth_mem)+
  from k obtain a b' c d where
    abcd: "grid_get g i j = Inr a" "grid_get g i (j + 1) = Inr b'"
      "grid_get g (i + 1) (j + 1) = Inr c" "grid_get g (i + 1) j = Inr d" and
    kv: "k = of_nat (8 * unat a + 4 * unat b' + 2 * unat c + 1 * unat d)"
    by (auto simp: config_index_def and_then_def split: sum.splits)
  have "unat k = 8 * unat a + 4 * unat b' + 2 * unat c + unat d"
    and "8 * unat a + 4 * unat b' + 2 * unat c + unat d \<le> 15"
    unfolding kv using abcd [THEN cell] by (rule config_bound)+
  then show k15: "unat k \<le> 15" by simp
  then show k16: "unat k < CONTOUR_CONFIG_COUNT" by (simp add: CONTOUR_CONFIG_COUNT_def)
  assume "length contour_map = CONTOUR_CONFIG_COUNT"
  then show "contour_at contour_map k = Inr (contour_map ! unat k)"
    using k16 by (simp add: contour_at_def)
qed

theorem sampler_writes_bits_witness:
  "sample_grid (flat_image 8 8 white) [[0, 1], [1, 1]] 0 1 = Inr [[0, 0], [0, 0]] \<and>
   binary_grid [[0, 1], [1, 1]] \<and> config_index [[0, 1], [1, 1]] 0 0 = Inr 7 \<and>
   length (replicate 16 (flat_image 8 8 black)) = CONTOUR_CONFIG_COUNT \<and>
   unat (7 :: uchar) \<le> 15 \<and>
   contour_at (replicate 16 (flat_image 8 8 black)) 7 = Inr (replicate 16 (flat_image 8 8 black) ! unat (7 :: uchar))"
proof -
  have 1: "sample_grid (flat_image 8 8 white) [[0, 1], [1, 1]] 0 1 = Inr [[0, 0], [0, 0]]"
    by code_simp
  have 2: "binary_grid [[0, 1], [1, 1]]" by (simp add: binary_grid_def)
  have 3: "config_index [[0, 1], [1, 1]] 0 0 = Inr 7" by code_simp
  have 4: "length (replicate 16 (flat_image 8 8 black)) = CONTOUR_CONFIG_COUNT"
    by (simp add: CONTOUR_CONFIG_COUNT_def)
  from sampler_writes_bits [of "flat_image 8 8 white" "[[0, 1], [1, 1]]" 0 1 "[[0, 0], [0, 0]]" 0 0 7
      "replicate 16 (flat_image 8 8 black)"] 1 2 3 4
  show ?thesis by simp
qed

end
